theory Spec2Isabelle
  imports Complex_Main
begin

section \<open>JavaScript values and objects\<close>

text \<open>
  The server is JavaScript. The values that flow through the orchestration code are
  strings, whole numbers, booleans and \<open>undefined\<close>/\<open>null\<close>. Numbers are modelled as
  \<open>int\<close> (every count in the program is an integer far below \<open>2^53\<close>); the one place
  where the source can produce \<open>NaN\<close> (\<open>Math.min\<close> with an \<open>undefined\<close> argument) is
  modelled with an \<open>option\<close>.
\<close>

datatype jsval = JUndefined | JNull | JBool bool | JNum int | JStr string

fun truthy :: "jsval \<Rightarrow> bool" where
  "truthy JUndefined = False"
| "truthy JNull = False"
| "truthy (JBool b) = b"
| "truthy (JNum n) = (n \<noteq> 0)"
| "truthy (JStr s) = (s \<noteq> [])"

text \<open>\<open>a || b\<close> on values.\<close>

definition js_or :: "jsval \<Rightarrow> jsval \<Rightarrow> jsval" where
  "js_or a b = (if truthy a then a else b)"

text \<open>
  A plain object with string keys: an association list in insertion order, without
  repeated keys. Reading an absent key gives \<open>undefined\<close>; writing an existing key keeps
  its position, writing a new key appends it.
\<close>

type_synonym jsobject = "(string \<times> jsval) list"

definition getProp :: "jsobject \<Rightarrow> string \<Rightarrow> jsval" where
  "getProp p k = (case map_of p k of None \<Rightarrow> JUndefined | Some v \<Rightarrow> v)"

fun setProp :: "jsobject \<Rightarrow> string \<Rightarrow> jsval \<Rightarrow> jsobject" where
  "setProp [] k v = [(k, v)]"
| "setProp ((k', v') # ps) k v =
     (if k' = k then (k, v) # ps else (k', v') # setProp ps k v)"

text \<open>\<open>String.prototype.includes\<close>.\<close>

fun startsWith :: "string \<Rightarrow> string \<Rightarrow> bool" where
  "startsWith s [] = True"
| "startsWith [] (c # cs) = False"
| "startsWith (d # ds) (c # cs) = (d = c \<and> startsWith ds cs)"

fun str_includes :: "string \<Rightarrow> string \<Rightarrow> bool" where
  "str_includes [] sub = (sub = [])"
| "str_includes (c # cs) sub = (startsWith (c # cs) sub \<or> str_includes cs sub)"

section \<open>Export rows (\<open>ScraperTask.saveResults\<close>)\<close>

definition requiredCols :: "string list" where
  "requiredCols =
     [''Title'', ''Price'', ''Ebay_Item_Number'', ''EAN'', ''Description'',
      ''Image_URL_1'', ''Image_URL_2'', ''Image_URL_3'', ''Image_URL_4'',
      ''Condition'', ''Shipping'', ''URL'', ''Scraped_At'']"

text \<open>
  \<open>requiredCols.forEach(col => { formatted[col] = p[col] || ''; })\<close>, starting from the
  empty object.
\<close>

definition formatProduct :: "jsobject \<Rightarrow> jsobject" where
  "formatProduct p =
     foldl (\<lambda>formatted col. setProp formatted col (js_or (getProp p col) (JStr ''''))) []
       requiredCols"

definition formattedProducts :: "jsobject list \<Rightarrow> jsobject list" where
  "formattedProducts ps = map formatProduct ps"

section \<open>Page budget (\<open>ScraperTask.startScraping\<close>, "Calculate total pages")\<close>

text \<open>
  The options object sent by the client. A numeric option that the client leaves out is
  \<open>undefined\<close> in the source, here \<open>None\<close>.
\<close>

record options =
  itemsPerPage :: "int option"
  maxPages :: "int option"
  removeDuplicates :: bool
  extractEAN :: bool
  extractDescription :: bool

text \<open>
  What \<open>page.evaluate\<close> returns for the first page, as far as the page budget reads it:
  the count parsed from the heading (\<open>0\<close> when there is no heading or it does not match)
  and the number of product elements seen.
\<close>

record page_info =
  totalResults :: int
  productCount :: int

text \<open>\<open>x || d\<close> for a numeric option: \<open>undefined\<close> and \<open>0\<close> are falsy.\<close>

definition num_or :: "int option \<Rightarrow> int \<Rightarrow> int" where
  "num_or x d = (case x of None \<Rightarrow> d | Some n \<Rightarrow> if n = 0 then d else n)"

text \<open>
  \<open>Math.ceil(a / b)\<close> on whole numbers \<open>0 < a < 2^53\<close> and \<open>0 < b < 2^53\<close>. The source
  divides in double precision; in that range the rounded quotient has the ceiling of
  the exact quotient (lemma \<open>ceil_div_rounded\<close> below), which is what \<open>ceil_div\<close> computes.
  Beyond \<open>2^53\<close> the two can differ, and the statements about the page budget are limited
  to counts and page sizes below \<open>2^53\<close>.
\<close>

definition ceil_div :: "int \<Rightarrow> int \<Rightarrow> int" where
  "ceil_div a b = - ((- a) div b)"

text \<open>
  The value stored in \<open>this.totalPages\<close>; \<open>None\<close> is \<open>NaN\<close>, which
  \<open>Math.min(n, undefined)\<close> yields.
\<close>

definition estimatedResults :: "page_info \<Rightarrow> int" where
  "estimatedResults pinfo =
     (if totalResults pinfo \<noteq> 0 then totalResults pinfo else productCount pinfo * 100)"

definition computeTotalPages :: "options \<Rightarrow> page_info \<Rightarrow> int option" where
  "computeTotalPages opts pinfo =
     (let total = estimatedResults pinfo;
          perPage = num_or (itemsPerPage opts) 60
      in if total = 0 then Some (num_or (maxPages opts) 100)
         else if maxPages opts = Some 0 then Some (ceil_div total perPage)
         else (case maxPages opts of
                 None \<Rightarrow> None
               | Some cap \<Rightarrow> Some (min (ceil_div total perPage) cap)))"

section \<open>The task object (\<open>class ScraperTask\<close>)\<close>

text \<open>
  Everything a task does to the outside world is recorded, in order, in its trace:
  the updates it sends (\<open>sendUpdate\<close>), the timers it awaits, the browser launch, the
  navigations, the extractions and the export.
\<close>

datatype event =
    Status string
  | Progress int nat nat nat
  | Extracting nat nat
  | RateLimited nat nat
  | Waiting nat
  | FilesSaved
  | Complete nat bool
  | Error string nat

text \<open>
  \<open>Status s\<close>: update type \<open>status\<close> with \<open>status: s\<close>.
  \<open>Progress page pageProducts newProducts totalProducts\<close>.
  \<open>Extracting currentItem totalItems\<close>.
  \<open>RateLimited waitTime retryCount\<close>; \<open>Waiting remainingTime\<close>.
  \<open>Complete totalProducts e\<close>: \<open>e\<close> tells whether the update carries an \<open>error\<close> field.
  \<open>Error message productsCollected\<close>.
\<close>

datatype action =
    Emit event
  | Sleep nat
  | Launch
  | Goto int
  | Extract int
  | Visit nat
  | Save "jsobject list"
  | CloseBrowser

text \<open>
  \<open>Emit e\<close>: a call of \<open>sendUpdate\<close> (recorded whether or not the socket is open).
  \<open>Sleep ms\<close>: the task awaits a timer of \<open>ms\<close> milliseconds, to its end; what the
  commands arriving during that wait do is recorded right after it.
  \<open>Launch\<close>: \<open>puppeteer.launch\<close> is called. \<open>Goto page\<close>: \<open>page.goto\<close> for a result page.
  \<open>Extract page\<close>: \<open>extractProducts\<close> is called. \<open>Visit i\<close>: the detail page of product
  \<open>i\<close> is opened. \<open>Save rows\<close>: the workbook with these rows is written.
  \<open>CloseBrowser\<close>: \<open>browser.close\<close> is called.

  The fields of a task are those the constructor sets, \<open>emptyPageCount\<close> (first set in
  the page loop), and the trace; \<open>browser\<close> tells whether \<open>this.browser\<close> is set. The
  socket, the id, the URL and the start time play no part in the control flow.
\<close>

record task =
  opts :: options
  browser :: bool
  isRunning :: bool
  isPaused :: bool
  products :: "jsobject list"
  seenItems :: "jsval set"
  currentPage :: int
  totalPages :: "int option"
  retryCount :: nat
  maxRetries :: nat
  blockDetected :: bool
  emptyPageCount :: nat
  trace :: "action list"

definition newTask :: "options \<Rightarrow> task" where
  "newTask os =
     \<lparr>opts = os, browser = False, isRunning = False, isPaused = False, products = [],
      seenItems = {}, currentPage = 0, totalPages = Some 0, retryCount = 0,
      maxRetries = 3, blockDetected = False, emptyPageCount = 0, trace = []\<rparr>"

definition act :: "action \<Rightarrow> task \<Rightarrow> task" where
  "act a t = t\<lparr>trace := trace t @ [a]\<rparr>"

definition sendUpdate :: "event \<Rightarrow> task \<Rightarrow> task" where
  "sendUpdate e t = act (Emit e) t"

subsection \<open>Commands from the client\<close>

definition cleanup :: "task \<Rightarrow> task" where
  "cleanup t =
     (let t1 = t\<lparr>isRunning := False\<rparr>
      in if browser t1 then act CloseBrowser t1 else t1)"

definition pause :: "task \<Rightarrow> task" where
  "pause t = sendUpdate (Status ''paused'') (t\<lparr>isPaused := True\<rparr>)"

definition resume :: "task \<Rightarrow> task" where
  "resume t = sendUpdate (Status ''resumed'') (t\<lparr>isPaused := False\<rparr>)"

definition stop :: "task \<Rightarrow> task" where
  "stop t = cleanup (sendUpdate (Status ''stopped'') (t\<lparr>isRunning := False\<rparr>))"

text \<open>
  What reaches a task from outside: the \<open>pause_task\<close>, \<open>resume_task\<close> and \<open>stop_task\<close>
  (or \<open>stop_all\<close>) messages, and the closing of the client's socket, on which the server
  calls \<open>cleanup\<close>. The handlers run on the event loop while the task is suspended in an
  \<open>await\<close>; the commands that arrive during one suspension are delivered in order.
\<close>

datatype command = PauseTask | ResumeTask | StopTask | SocketClosed

fun deliver :: "command \<Rightarrow> task \<Rightarrow> task" where
  "deliver PauseTask t = pause t"
| "deliver ResumeTask t = resume t"
| "deliver StopTask t = stop t"
| "deliver SocketClosed t = cleanup t"

definition deliverAll :: "command list \<Rightarrow> task \<Rightarrow> task" where
  "deliverAll cs t = fold deliver cs t"

subsection \<open>\<open>waitIfPaused\<close>\<close>

text \<open>
  \<open>while (this.isPaused && this.isRunning) await sleep(1000)\<close>. The argument lists, for
  each one-second sleep, the commands that arrive during it. When the list ends and the
  task is still paused and running, the method has not returned: the result is \<open>False\<close>.
\<close>

fun waitIfPaused :: "command list list \<Rightarrow> task \<Rightarrow> bool \<times> task" where
  "waitIfPaused [] t = (\<not> (isPaused t \<and> isRunning t), t)"
| "waitIfPaused (cs # ticks) t =
     (if isPaused t \<and> isRunning t
      then waitIfPaused ticks (deliverAll cs (act (Sleep 1000) t))
      else (True, t))"

subsection \<open>\<open>handleRateLimit\<close>\<close>

text \<open>
  The wait loop \<open>for (let i = waitTime; i > 0 && this.isRunning && !this.isPaused; i--)\<close>;
  \<open>ticks\<close> lists the commands arriving during each one-second sleep (none once the list
  is used up).
\<close>

fun waitLoop :: "command list list \<Rightarrow> nat \<Rightarrow> task \<Rightarrow> task" where
  "waitLoop ticks 0 t = t"
| "waitLoop ticks (Suc i) t =
     (if isRunning t \<and> \<not> isPaused t
      then waitLoop (tl ticks) i
             (deliverAll (case ticks of [] \<Rightarrow> [] | cs # _ \<Rightarrow> cs)
                (act (Sleep 1000) (sendUpdate (Waiting (Suc i)) t)))
      else t)"

definition waitTime :: "task \<Rightarrow> nat" where
  "waitTime t = 60 + retryCount t * 30"

definition handleRateLimit :: "command list list \<Rightarrow> task \<Rightarrow> task" where
  "handleRateLimit ticks t =
     (let t1 = t\<lparr>blockDetected := True\<rparr>;
          t2 = sendUpdate (RateLimited (waitTime t1) (retryCount t1)) t1;
          t3 = waitLoop ticks (waitTime t1) t2
      in t3\<lparr>retryCount := retryCount t3 + 1, blockDetected := False\<rparr>)"

text \<open>Consecutive detections: one call per element, each with its own ticks.\<close>

fun detections :: "command list list list \<Rightarrow> task \<Rightarrow> task" where
  "detections [] t = t"
| "detections (ticks # rest) t = detections rest (handleRateLimit ticks t)"

section \<open>One page of the page loop\<close>

text \<open>
  What the world does during one iteration of the page loop: the commands arriving in each
  second of the pause wait, the result of \<open>page.goto\<close> and the page title read after it,
  the commands arriving during the two-minute wait after a bot detection, the result of
  the navigation after that wait, the result of the retry in the \<open>catch (navError)\<close>
  block, what \<open>extractProducts\<close> returns (\<open>Inl\<close>: it throws), the clock, and the commands
  arriving at any other suspension point of the iteration. The flags \<open>isRunning\<close> and
  \<open>isPaused\<close> are read only in \<open>waitIfPaused\<close> and in the loop condition, so the latter
  commands are delivered at the end of the iteration.
\<close>

datatype goto_result = GotoFails string | GotoOk string

record page_env =
  pauseTicks :: "command list list"
  firstGoto :: goto_result
  pageTitle :: "string option"
  duringBackoff :: "command list"
  backoffGoto :: goto_result
  retryGoto :: goto_result
  extracted :: "string + jsobject list"
  now :: string
  duringPage :: "command list"

definition detected :: "string \<Rightarrow> string \<Rightarrow> bool" where
  "detected url title =
     (str_includes url ''splashui/challenge'' \<or> str_includes url ''captcha''
      \<or> str_includes title ''interruption'')"

definition stillBlocked :: "string \<Rightarrow> bool" where
  "stillBlocked url = (str_includes url ''splashui/challenge'' \<or> str_includes url ''captcha'')"

datatype try_exit = TryOk | TryBreak | TryError

text \<open>The \<open>try\<close> block around the navigation to a page after the first.\<close>

definition tryNavigate :: "page_env \<Rightarrow> int \<Rightarrow> task \<Rightarrow> try_exit \<times> task" where
  "tryNavigate env page t =
     (let t1 = act (Goto page) t
      in case firstGoto env of
           GotoFails m \<Rightarrow> (TryError, t1)
         | GotoOk url \<Rightarrow>
             (let t2 = act (Sleep 3000) t1
              in case pageTitle env of
                   None \<Rightarrow> (TryError, t2)
                 | Some title \<Rightarrow>
                     if detected url title
                     then (let t3 = act (Sleep 120000) (sendUpdate (Status ''paused'') t2);
                               t4 = deliverAll (duringBackoff env) t3;
                               t5 = act (Goto page) t4
                           in case backoffGoto env of
                                GotoFails m \<Rightarrow> (TryError, t5)
                              | GotoOk url2 \<Rightarrow>
                                  (let t6 = act (Sleep 3000) t5
                                   in if stillBlocked url2
                                      then (TryBreak, sendUpdate (Status ''stopped'') t6)
                                      else (TryOk, t6)))
                     else (TryOk, t2)))"

datatype nav_exit = NavOk | NavBreak | NavSkip

text \<open>The \<open>catch (navError)\<close> block: wait ten seconds, retry once, skip the page on failure.\<close>

definition retryNavigate :: "page_env \<Rightarrow> int \<Rightarrow> task \<Rightarrow> nav_exit \<times> task" where
  "retryNavigate env page t =
     (let t1 = act (Goto page) (act (Sleep 10000) t)
      in case retryGoto env of
           GotoFails m \<Rightarrow> (NavSkip, t1)
         | GotoOk url \<Rightarrow> (NavOk, act (Sleep 3000) t1))"

definition navigation :: "page_env \<Rightarrow> int \<Rightarrow> task \<Rightarrow> nav_exit \<times> task" where
  "navigation env page t =
     (case tryNavigate env page t of
        (TryOk, t1) \<Rightarrow> (NavOk, t1)
      | (TryBreak, t1) \<Rightarrow> (NavBreak, t1)
      | (TryError, t1) \<Rightarrow> retryNavigate env page t1)"

text \<open>
  "Filter duplicates": the candidates are filtered against \<open>seenItems\<close> first, and only
  then are all their item numbers added to the set.
\<close>

definition itemNumber :: "jsobject \<Rightarrow> jsval" where
  "itemNumber p = getProp p ''Ebay_Item_Number''"

definition filterDuplicates :: "jsobject list \<Rightarrow> task \<Rightarrow> jsobject list \<times> task" where
  "filterDuplicates ps t =
     (if removeDuplicates (opts t)
      then (filter (\<lambda>p. itemNumber p \<notin> seenItems t) ps,
            t\<lparr>seenItems := fold (\<lambda>p s. insert (itemNumber p) s) ps (seenItems t)\<rparr>)
      else (ps, t))"

text \<open>Timestamp the new products, append them, send the \<open>progress\<close> update.\<close>

definition collect :: "page_env \<Rightarrow> int \<Rightarrow> jsobject list \<Rightarrow> task \<Rightarrow> task" where
  "collect env page ps t =
     (let (newProducts, t1) = filterDuplicates ps t;
          stamped = map (\<lambda>p. setProp p ''Scraped_At'' (JStr (now env))) newProducts;
          t2 = t1\<lparr>products := products t1 @ stamped\<rparr>
      in sendUpdate (Progress page (length ps) (length stamped) (length (products t2))) t2)"

text \<open>Comparisons with \<open>this.totalPages\<close>; every comparison with \<open>NaN\<close> is false.\<close>

definition le_num :: "int \<Rightarrow> int option \<Rightarrow> bool" where
  "le_num a b = (case b of None \<Rightarrow> False | Some n \<Rightarrow> a \<le> n)"

definition ge_num :: "int \<Rightarrow> int option \<Rightarrow> bool" where
  "ge_num a b = (case b of None \<Rightarrow> False | Some n \<Rightarrow> a \<ge> n)"

datatype flow = Next | Break | Throw string | Hang

text \<open>
  The empty-page bookkeeping at the end of the iteration. \<open>this.emptyPageCount\<close> is not
  set by the constructor; the source treats \<open>undefined\<close> as \<open>0\<close>.
\<close>

definition emptyCheck :: "int \<Rightarrow> jsobject list \<Rightarrow> task \<Rightarrow> flow \<times> task" where
  "emptyCheck page ps t =
     (if length ps = 0
      then (let t1 = t\<lparr>emptyPageCount := emptyPageCount t + 1\<rparr>
            in if emptyPageCount t1 \<ge> 3 \<or> ge_num page (totalPages t1)
               then (Break, t1)
               else (Next, act (Sleep 5000) t1))
      else (Next, t\<lparr>emptyPageCount := 0\<rparr>))"

definition extractAndCollect :: "page_env \<Rightarrow> int \<Rightarrow> task \<Rightarrow> flow \<times> task" where
  "extractAndCollect env page t =
     (let t1 = act (Extract page) t
      in case extracted env of
           Inl msg \<Rightarrow> (Throw msg, t1)
         | Inr ps \<Rightarrow>
             (let (fl, t2) = emptyCheck page ps (collect env page ps t1)
              in (fl, deliverAll (duringPage env) t2)))"

definition pageIteration :: "page_env \<Rightarrow> int \<Rightarrow> task \<Rightarrow> flow \<times> task" where
  "pageIteration env page t =
     (case waitIfPaused (pauseTicks env) t of
        (False, t1) \<Rightarrow> (Hang, t1)
      | (True, t1) \<Rightarrow>
          (let t2 = t1\<lparr>currentPage := page\<rparr>
           in if page > 1
              then (case navigation env page t2 of
                      (NavOk, t3) \<Rightarrow> extractAndCollect env page t3
                    | (NavBreak, t3) \<Rightarrow> (Break, deliverAll (duringPage env) t3)
                    | (NavSkip, t3) \<Rightarrow> (Next, deliverAll (duringPage env) t3))
              else extractAndCollect env page t2))"

section \<open>The page loop\<close>

text \<open>
  \<open>for (let page = 1; page <= this.totalPages && this.isRunning; page++)\<close>. The world is
  a function from the page number to what happens on that page. Nothing in the loop
  assigns \<open>this.totalPages\<close>, which is why the loop ends.
\<close>

lemma act_fields [simp]:
  "opts (act a t) = opts t" "browser (act a t) = browser t"
  "isRunning (act a t) = isRunning t" "isPaused (act a t) = isPaused t"
  "products (act a t) = products t" "seenItems (act a t) = seenItems t"
  "currentPage (act a t) = currentPage t" "totalPages (act a t) = totalPages t"
  "retryCount (act a t) = retryCount t" "maxRetries (act a t) = maxRetries t"
  "blockDetected (act a t) = blockDetected t" "emptyPageCount (act a t) = emptyPageCount t"
  "trace (act a t) = trace t @ [a]"
  by (simp_all add: act_def)

lemma sendUpdate_fields [simp]:
  "opts (sendUpdate e t) = opts t" "browser (sendUpdate e t) = browser t"
  "isRunning (sendUpdate e t) = isRunning t" "isPaused (sendUpdate e t) = isPaused t"
  "products (sendUpdate e t) = products t" "seenItems (sendUpdate e t) = seenItems t"
  "currentPage (sendUpdate e t) = currentPage t" "totalPages (sendUpdate e t) = totalPages t"
  "retryCount (sendUpdate e t) = retryCount t" "maxRetries (sendUpdate e t) = maxRetries t"
  "blockDetected (sendUpdate e t) = blockDetected t"
  "emptyPageCount (sendUpdate e t) = emptyPageCount t"
  "trace (sendUpdate e t) = trace t @ [Emit e]"
  by (simp_all add: sendUpdate_def)

lemma deliver_frame [simp]:
  "opts (deliver c t) = opts t" "products (deliver c t) = products t"
  "seenItems (deliver c t) = seenItems t" "totalPages (deliver c t) = totalPages t"
  "retryCount (deliver c t) = retryCount t" "maxRetries (deliver c t) = maxRetries t"
  "emptyPageCount (deliver c t) = emptyPageCount t" "currentPage (deliver c t) = currentPage t"
  "browser (deliver c t) = browser t"
  by (cases c; simp add: pause_def resume_def stop_def cleanup_def Let_def)+

lemma deliverAll_frame [simp]:
  "opts (deliverAll cs t) = opts t" "products (deliverAll cs t) = products t"
  "seenItems (deliverAll cs t) = seenItems t" "totalPages (deliverAll cs t) = totalPages t"
  "retryCount (deliverAll cs t) = retryCount t" "maxRetries (deliverAll cs t) = maxRetries t"
  "emptyPageCount (deliverAll cs t) = emptyPageCount t"
  "currentPage (deliverAll cs t) = currentPage t"
  "browser (deliverAll cs t) = browser t"
  unfolding deliverAll_def by (induction cs arbitrary: t; simp)+

lemma waitIfPaused_frame [simp]:
  "opts (snd (waitIfPaused ticks t)) = opts t"
  "products (snd (waitIfPaused ticks t)) = products t"
  "seenItems (snd (waitIfPaused ticks t)) = seenItems t"
  "totalPages (snd (waitIfPaused ticks t)) = totalPages t"
  "retryCount (snd (waitIfPaused ticks t)) = retryCount t"
  "emptyPageCount (snd (waitIfPaused ticks t)) = emptyPageCount t"
  "browser (snd (waitIfPaused ticks t)) = browser t"
  by (induction ticks arbitrary: t; simp)+

lemma tryNavigate_frame [simp]:
  "opts (snd (tryNavigate env page t)) = opts t"
  "products (snd (tryNavigate env page t)) = products t"
  "seenItems (snd (tryNavigate env page t)) = seenItems t"
  "totalPages (snd (tryNavigate env page t)) = totalPages t"
  "retryCount (snd (tryNavigate env page t)) = retryCount t"
  "emptyPageCount (snd (tryNavigate env page t)) = emptyPageCount t"
  "browser (snd (tryNavigate env page t)) = browser t"
  by (simp_all add: tryNavigate_def Let_def split: goto_result.splits option.splits)

lemma retryNavigate_frame [simp]:
  "opts (snd (retryNavigate env page t)) = opts t"
  "products (snd (retryNavigate env page t)) = products t"
  "seenItems (snd (retryNavigate env page t)) = seenItems t"
  "totalPages (snd (retryNavigate env page t)) = totalPages t"
  "retryCount (snd (retryNavigate env page t)) = retryCount t"
  "emptyPageCount (snd (retryNavigate env page t)) = emptyPageCount t"
  "browser (snd (retryNavigate env page t)) = browser t"
  by (simp_all add: retryNavigate_def Let_def split: goto_result.splits)

lemma navigation_frame [simp]:
  "opts (snd (navigation env page t)) = opts t"
  "products (snd (navigation env page t)) = products t"
  "seenItems (snd (navigation env page t)) = seenItems t"
  "totalPages (snd (navigation env page t)) = totalPages t"
  "retryCount (snd (navigation env page t)) = retryCount t"
  "emptyPageCount (snd (navigation env page t)) = emptyPageCount t"
  "browser (snd (navigation env page t)) = browser t"
proof -
  obtain x t1 where tn: "tryNavigate env page t = (x, t1)"
    by (cases "tryNavigate env page t")
  have fr: "opts t1 = opts t" "products t1 = products t" "seenItems t1 = seenItems t"
    "totalPages t1 = totalPages t" "retryCount t1 = retryCount t"
    "emptyPageCount t1 = emptyPageCount t"
    "browser t1 = browser t"
    using tryNavigate_frame [of env page t] by (simp_all add: tn)
  show "opts (snd (navigation env page t)) = opts t"
    "products (snd (navigation env page t)) = products t"
    "seenItems (snd (navigation env page t)) = seenItems t"
    "totalPages (snd (navigation env page t)) = totalPages t"
    "retryCount (snd (navigation env page t)) = retryCount t"
    "emptyPageCount (snd (navigation env page t)) = emptyPageCount t"
    "browser (snd (navigation env page t)) = browser t"
    by (cases x; simp add: navigation_def tn fr)+
qed

lemma collect_frame [simp]:
  "opts (collect env page ps t) = opts t"
  "totalPages (collect env page ps t) = totalPages t"
  "retryCount (collect env page ps t) = retryCount t"
  "emptyPageCount (collect env page ps t) = emptyPageCount t"
  "isRunning (collect env page ps t) = isRunning t"
  "isPaused (collect env page ps t) = isPaused t"
  "browser (collect env page ps t) = browser t"
  by (simp_all add: collect_def filterDuplicates_def Let_def)

lemma emptyCheck_frame [simp]:
  "opts (snd (emptyCheck page ps t)) = opts t"
  "totalPages (snd (emptyCheck page ps t)) = totalPages t"
  "retryCount (snd (emptyCheck page ps t)) = retryCount t"
  "products (snd (emptyCheck page ps t)) = products t"
  "seenItems (snd (emptyCheck page ps t)) = seenItems t"
  "isRunning (snd (emptyCheck page ps t)) = isRunning t"
  "isPaused (snd (emptyCheck page ps t)) = isPaused t"
  "browser (snd (emptyCheck page ps t)) = browser t"
  by (simp_all add: emptyCheck_def Let_def)

lemma extractAndCollect_frame [simp]:
  "opts (snd (extractAndCollect env page t)) = opts t"
  "totalPages (snd (extractAndCollect env page t)) = totalPages t"
  "retryCount (snd (extractAndCollect env page t)) = retryCount t"
  "browser (snd (extractAndCollect env page t)) = browser t"
  by (simp_all add: extractAndCollect_def Let_def split_beta split: sum.splits)

lemma pageIteration_frame [simp]:
  "opts (snd (pageIteration env page t)) = opts t"
  "totalPages (snd (pageIteration env page t)) = totalPages t"
  "retryCount (snd (pageIteration env page t)) = retryCount t"
  "browser (snd (pageIteration env page t)) = browser t"
proof -
  obtain b t1 where w: "waitIfPaused (pauseTicks env) t = (b, t1)"
    by (cases "waitIfPaused (pauseTicks env) t")
  have fr1: "opts t1 = opts t" "totalPages t1 = totalPages t" "retryCount t1 = retryCount t"
    "browser t1 = browser t"
    using waitIfPaused_frame [of "pauseTicks env" t] by (simp_all add: w)
  obtain x t3 where n: "navigation env page (t1\<lparr>currentPage := page\<rparr>) = (x, t3)"
    by (cases "navigation env page (t1\<lparr>currentPage := page\<rparr>)")
  have fr3: "opts t3 = opts t" "totalPages t3 = totalPages t" "retryCount t3 = retryCount t"
    "browser t3 = browser t"
    using navigation_frame [of env page "t1\<lparr>currentPage := page\<rparr>"] by (simp_all add: n fr1)
  show "opts (snd (pageIteration env page t)) = opts t"
    "totalPages (snd (pageIteration env page t)) = totalPages t"
    "retryCount (snd (pageIteration env page t)) = retryCount t"
    "browser (snd (pageIteration env page t)) = browser t"
    by (cases b; cases x; simp add: pageIteration_def w n fr1 fr3 Let_def)+
qed

lemma pageIteration_totalPages:
  "(fl, t1) = pageIteration env page t \<Longrightarrow> totalPages t1 = totalPages t"
  using pageIteration_frame(2) [of env page t] by (metis snd_conv)

datatype outcome = Finished | Failed string | Hung

function pageLoop :: "(int \<Rightarrow> page_env) \<Rightarrow> int \<Rightarrow> task \<Rightarrow> outcome \<times> task" where
  "pageLoop env page t =
     (if le_num page (totalPages t) \<and> isRunning t
      then (case pageIteration (env page) page t of
              (Next, t1) \<Rightarrow> pageLoop env (page + 1) t1
            | (Break, t1) \<Rightarrow> (Finished, t1)
            | (Throw msg, t1) \<Rightarrow> (Failed msg, t1)
            | (Hang, t1) \<Rightarrow> (Hung, t1))
      else (Finished, t))"
  by pat_completeness auto
termination
  apply (relation "measure (\<lambda>(env, page, t). case totalPages t of None \<Rightarrow> 0
                                              | Some n \<Rightarrow> nat (n + 1 - page))")
   apply simp
  apply (auto simp: le_num_def split: option.splits dest: pageIteration_totalPages)
  done

declare pageLoop.simps [simp del]

section \<open>Enrichment (\<open>ScraperTask.extractProductDetails\<close>)\<close>

text \<open>
  What the world does while product \<open>i\<close> is processed: the commands arriving during the
  pause wait, the random delay before the visit, the result of the visit (the details
  read from the product page, or the message of the error thrown), and the commands
  arriving during the visit.
\<close>

datatype detail_result = Details string string | DetailFails string

record detail_env =
  dTicks :: "command list list"
  dDelay :: nat
  dResult :: detail_result
  dDuring :: "command list"

definition hasAllDetails :: "options \<Rightarrow> jsobject \<Rightarrow> bool" where
  "hasAllDetails os product =
     ((\<not> extractEAN os \<or> truthy (getProp product ''EAN''))
      \<and> (\<not> extractDescription os \<or> truthy (getProp product ''Description'')))"

text \<open>The \<open>try\<close>/\<open>catch\<close> for one product; the flag tells whether the loop is left.\<close>

definition visitProduct :: "detail_env \<Rightarrow> nat \<Rightarrow> nat \<Rightarrow> task \<Rightarrow> bool \<times> task" where
  "visitProduct env i totalItems t =
     (let t1 = (if i > 0 then act (Sleep (dDelay env)) t else t);
          t2 = (if i mod 5 = 0 then sendUpdate (Extracting (i + 1) totalItems) t1 else t1);
          t3 = act (Visit i) t2
      in case dResult env of
           Details ean desc \<Rightarrow>
             (let p = products t3 ! i;
                  p1 = (if extractEAN (opts t3) then setProp p ''EAN'' (JStr ean) else p);
                  p2 = (if extractDescription (opts t3)
                        then setProp p1 ''Description'' (JStr desc) else p1)
              in (False, t3\<lparr>products := (products t3)[i := p2]\<rparr>))
         | DetailFails msg \<Rightarrow>
             (str_includes msg ''Target closed'' \<or> str_includes msg ''Session closed'', t3))"

text \<open>
  \<open>for (let i = 0; i < totalItems && this.isRunning; i++)\<close>, with \<open>n = totalItems - i\<close>
  products left. The flag of the result tells whether the method returned (it does not
  when a pause wait never ends).
\<close>

fun detailsLoop :: "(nat \<Rightarrow> detail_env) \<Rightarrow> nat \<Rightarrow> nat \<Rightarrow> nat \<Rightarrow> task \<Rightarrow> bool \<times> task" where
  "detailsLoop env totalItems i 0 t = (True, t)"
| "detailsLoop env totalItems i (Suc n) t =
     (if isRunning t
      then (case waitIfPaused (dTicks (env i)) t of
              (False, t1) \<Rightarrow> (False, t1)
            | (True, t1) \<Rightarrow>
                if hasAllDetails (opts t1) (products t1 ! i)
                then detailsLoop env totalItems (i + 1) n t1
                else (case visitProduct (env i) i totalItems t1 of
                        (True, t2) \<Rightarrow> (True, t2)
                      | (False, t2) \<Rightarrow>
                          detailsLoop env totalItems (i + 1) n (deliverAll (dDuring (env i)) t2)))
      else (True, t))"

definition extractProductDetails :: "(nat \<Rightarrow> detail_env) \<Rightarrow> task \<Rightarrow> bool \<times> task" where
  "extractProductDetails env t =
     detailsLoop env (length (products t)) 0 (length (products t)) t"

section \<open>\<open>ScraperTask.saveResults\<close>\<close>

text \<open>
  The argument is the error thrown by the file system or the workbook writer, if any;
  otherwise the formatted rows are written and \<open>files_saved\<close> is sent.
\<close>

definition saveResults :: "string option \<Rightarrow> task \<Rightarrow> string option \<times> task" where
  "saveResults failure t =
     (case failure of
        Some msg \<Rightarrow> (Some msg, t)
      | None \<Rightarrow> (None, sendUpdate FilesSaved (act (Save (formattedProducts (products t))) t)))"

section \<open>\<open>ScraperTask.startScraping\<close>\<close>

text \<open>
  \<open>init\<close> launches the browser once and configures a page. \<open>LaunchFails\<close>: the launch
  throws; \<open>SetupFails\<close>: the launch succeeds and a later step of \<open>init\<close> throws.
\<close>

datatype init_result = InitOk | LaunchFails string | SetupFails string

definition init :: "init_result \<Rightarrow> task \<Rightarrow> string option \<times> task" where
  "init r t =
     (let t1 = act Launch t
      in case r of
           InitOk \<Rightarrow> (None, t1\<lparr>browser := True\<rparr>)
         | LaunchFails msg \<Rightarrow> (Some msg, t1)
         | SetupFails msg \<Rightarrow> (Some msg, t1\<lparr>browser := True\<rparr>))"

text \<open>
  "Load first page to get total count (with retry)":
  \<open>let retries = 3; while (retries > 0) { try { goto; sleep; break } catch (error) {
  retries--; if (retries === 0) throw error; sendUpdate(retrying); sleep(5000) } }\<close>.
  The first argument gives the result of the navigation by attempt number, from \<open>0\<close>.
\<close>

fun loadFirstPage :: "(nat \<Rightarrow> goto_result) \<Rightarrow> nat \<Rightarrow> task \<Rightarrow> string option \<times> task" where
  "loadFirstPage attempt 0 t = (None, t)"
| "loadFirstPage attempt (Suc retries) t =
     (let t1 = act (Goto 1) t
      in case attempt (3 - Suc retries) of
           GotoOk url \<Rightarrow> (None, act (Sleep 3000) t1)
         | GotoFails msg \<Rightarrow>
             if retries = 0 then (Some msg, t1)
             else loadFirstPage attempt retries
                    (act (Sleep 5000) (sendUpdate (Status ''retrying'') t1)))"

text \<open>
  What the world does during one run: the result of \<open>init\<close>, the results of the
  attempts to load the first page, what the evaluation of the first page returns
  (\<open>Inl\<close>: it throws), the commands arriving before the page loop starts, the pages, the
  product visits of the enrichment pass, and the error thrown by the export, if any, in
  the \<open>try\<close> block and in the \<open>catch\<close> block.
\<close>

record run_env =
  initResult :: init_result
  firstLoad :: "nat \<Rightarrow> goto_result"
  pageInfo :: "string + page_info"
  duringSetup :: "command list"
  pages :: "int \<Rightarrow> page_env"
  details :: "nat \<Rightarrow> detail_env"
  saveFailure :: "string option"
  saveFailureInCatch :: "string option"

text \<open>The \<open>try\<close> block after the page loop: enrichment, export, \<open>complete\<close>.\<close>

definition afterLoop :: "run_env \<Rightarrow> task \<Rightarrow> outcome \<times> task" where
  "afterLoop env t =
     (case (if (extractEAN (opts t) \<or> extractDescription (opts t)) \<and> length (products t) > 0
            then extractProductDetails (details env) t else (True, t)) of
        (False, t1) \<Rightarrow> (Hung, t1)
      | (True, t1) \<Rightarrow>
          (case saveResults (saveFailure env) t1 of
             (Some msg, t2) \<Rightarrow> (Failed msg, t2)
           | (None, t2) \<Rightarrow>
               (Finished, sendUpdate (Complete (length (products t2)) False) t2)))"

text \<open>The \<open>try\<close> block.\<close>

definition scrape :: "run_env \<Rightarrow> task \<Rightarrow> outcome \<times> task" where
  "scrape env t =
     (case init (initResult env) t of
        (Some msg, t1) \<Rightarrow> (Failed msg, t1)
      | (None, t1) \<Rightarrow>
          (case loadFirstPage (firstLoad env) 3
                  (sendUpdate (Status ''loading_first_page'') t1) of
             (Some msg, t2) \<Rightarrow> (Failed msg, t2)
           | (None, t2) \<Rightarrow>
               (case pageInfo env of
                  Inl msg \<Rightarrow> (Failed msg, t2)
                | Inr pinfo \<Rightarrow>
                    (let t3 = sendUpdate (Status ''scraping'')
                                (t2\<lparr>totalPages := computeTotalPages (opts t2) pinfo\<rparr>);
                         t4 = deliverAll (duringSetup env) t3
                     in case pageLoop (pages env) 1 t4 of
                          (Finished, t5) \<Rightarrow> afterLoop env t5
                        | (Failed msg, t5) \<Rightarrow> (Failed msg, t5)
                        | (Hung, t5) \<Rightarrow> (Hung, t5)))))"

text \<open>The \<open>catch (error)\<close> block.\<close>

definition onFatal :: "run_env \<Rightarrow> string \<Rightarrow> task \<Rightarrow> task" where
  "onFatal env msg t =
     (let t1 = (if length (products t) > 0
                then (case saveResults (saveFailureInCatch env) t of
                        (None, t') \<Rightarrow> sendUpdate (Complete (length (products t')) True) t'
                      | (Some saveError, t') \<Rightarrow> t')
                else t)
      in sendUpdate (Error msg (length (products t1))) t1)"

text \<open>
  The whole method; \<open>finally\<close> runs \<open>cleanup\<close>. The flag of the result tells whether the
  promise settled.
\<close>

definition startScraping :: "run_env \<Rightarrow> task \<Rightarrow> bool \<times> task" where
  "startScraping env t =
     (case scrape env (sendUpdate (Status ''scraping'') (t\<lparr>isRunning := True\<rparr>)) of
        (Finished, t1) \<Rightarrow> (True, cleanup t1)
      | (Failed msg, t1) \<Rightarrow> (True, cleanup (onFatal env msg t1))
      | (Hung, t1) \<Rightarrow> (False, t1))"

section \<open>The task queue\<close>

text \<open>
  The module-level state: the registry \<open>activeSessions\<close> (its keys, in insertion order),
  \<open>taskQueue\<close>, \<open>activeBrowserCount\<close>, and the calls of \<open>startScraping\<close> whose promise has
  not settled yet, each with the \<open>isRunning\<close> flag of its task. \<open>started\<close> records the
  order in which tasks were taken from the queue.
\<close>

definition MAX_CONCURRENT_BROWSERS :: int where
  "MAX_CONCURRENT_BROWSERS = 1"

record server =
  activeSessions :: "nat list"
  taskQueue :: "nat list"
  activeBrowserCount :: int
  pending :: "(nat \<times> bool) list"
  started :: "nat list"

definition newServer :: server where
  "newServer = \<lparr>activeSessions = [], taskQueue = [], activeBrowserCount = 0, pending = [],
                 started = []\<rparr>"

function processTaskQueue :: "server \<Rightarrow> server" where
  "processTaskQueue s =
     (if activeBrowserCount s < MAX_CONCURRENT_BROWSERS \<and> length (taskQueue s) > 0
      then processTaskQueue
             (s\<lparr>taskQueue := tl (taskQueue s),
                activeBrowserCount := activeBrowserCount s + 1,
                pending := pending s @ [(hd (taskQueue s), True)],
                started := started s @ [hd (taskQueue s)]\<rparr>)
      else s)"
  by pat_completeness auto
termination
  by (relation "measure (\<lambda>s. length (taskQueue s))") auto

declare processTaskQueue.simps [simp del]

datatype message =
    StartMulti "nat list"
  | StopOne nat
  | StopAll
  | Settled nat

text \<open>\<open>task.stop()\<close> seen from the queue: the task's \<open>isRunning\<close> becomes false.\<close>

definition stopPending :: "nat \<Rightarrow> (nat \<times> bool) list \<Rightarrow> (nat \<times> bool) list" where
  "stopPending taskId ps = map (\<lambda>(i, r). if i = taskId then (i, False) else (i, r)) ps"

text \<open>
  \<open>StartMulti ids\<close>: a \<open>start_multi\<close> message creating one task per id.
  \<open>StopOne\<close>, \<open>StopAll\<close>: the \<open>stop_task\<close> and \<open>stop_all\<close> messages.
  \<open>Settled taskId\<close>: the promise of a pending \<open>startScraping\<close> settles and its
  \<open>finally\<close> callback runs.
\<close>

fun handle :: "message \<Rightarrow> server \<Rightarrow> server" where
  "handle (StartMulti ids) s =
     processTaskQueue
       (s\<lparr>activeSessions := activeSessions s @ ids, taskQueue := taskQueue s @ ids\<rparr>)"
| "handle (StopOne taskId) s =
     (if taskId \<in> set (activeSessions s)
      then s\<lparr>pending := stopPending taskId (pending s),
             activeSessions := removeAll taskId (activeSessions s),
             taskQueue := removeAll taskId (taskQueue s)\<rparr>
      else s)"
| "handle StopAll s =
     s\<lparr>pending := fold stopPending (activeSessions s) (pending s),
       activeSessions := [], taskQueue := [], activeBrowserCount := 0\<rparr>"
| "handle (Settled taskId) s =
     (if taskId \<in> fst ` set (pending s)
      then processTaskQueue
             (s\<lparr>activeBrowserCount := activeBrowserCount s - 1,
                pending := filter (\<lambda>(i, r). i \<noteq> taskId) (pending s)\<rparr>)
      else s)"

definition serve :: "message list \<Rightarrow> server \<Rightarrow> server" where
  "serve ms s = fold handle ms s"

definition runningSessions :: "server \<Rightarrow> nat" where
  "runningSessions s = length (filter snd (pending s))"

section \<open>Projections of the trace, auxiliary predicates and concrete inputs\<close>

definition exampleOptions :: options where
  "exampleOptions =
     \<lparr>itemsPerPage = Some 60, maxPages = Some 0, removeDuplicates = True,
      extractEAN = False, extractDescription = False\<rparr>"

definition exampleProduct :: "string \<Rightarrow> string \<Rightarrow> jsobject" where
  "exampleProduct number title =
     [(''Title'', JStr title), (''Price'', JStr ''''), (''Ebay_Item_Number'', JStr number),
      (''Condition'', JStr ''Used''), (''Shipping'', JStr ''''),
      (''URL'', JStr (''https://www.ebay.co.uk/itm/'' @ number)), (''Page'', JNum 1),
      (''Image_URL_1'', JStr ''''), (''Image_URL_2'', JStr ''''),
      (''Image_URL_3'', JStr ''''), (''Image_URL_4'', JStr ''''),
      (''EAN'', JStr ''''), (''Description'', JStr '''')]"

text \<open>The updates a task has sent, in order.\<close>

fun emitted :: "action list \<Rightarrow> event list" where
  "emitted [] = []"
| "emitted (Emit e # as) = e # emitted as"
| "emitted (a # as) = emitted as"

definition searchUrl :: string where
  "searchUrl = ''https://www.ebay.co.uk/sch/i.html?_nkw=blu+ray&_ipg=60''"

definition challengeUrl :: string where
  "challengeUrl = ''https://www.ebay.co.uk/splashui/challenge?ap=1''"

text \<open>
  A page on which nothing goes wrong: the navigation loads the search page, no command
  arrives, and \<open>extractProducts\<close> returns the given candidates.
\<close>

definition quietPage :: "jsobject list \<Rightarrow> page_env" where
  "quietPage ps =
     \<lparr>pauseTicks = [], firstGoto = GotoOk searchUrl, pageTitle = Some ''blu ray | eBay'',
      duringBackoff = [], backoffGoto = GotoOk searchUrl, retryGoto = GotoOk searchUrl,
      extracted = Inr ps, now = ''2025-08-29 10:00:00'', duringPage = []\<rparr>"

text \<open>
  A run in which the browser launches, the first page loads at once and reports the
  given result count, no command arrives during the setup, and the export succeeds.
\<close>

definition quietRun :: "(int \<Rightarrow> page_env) \<Rightarrow> int \<Rightarrow> run_env" where
  "quietRun pgs count =
     \<lparr>initResult = InitOk, firstLoad = (\<lambda>k. GotoOk searchUrl),
      pageInfo = Inr \<lparr>totalResults = count, productCount = 60\<rparr>, duringSetup = [],
      pages = pgs,
      details = (\<lambda>i. \<lparr>dTicks = [], dDelay = 2000, dResult = DetailFails ''timeout'',
                         dDuring = []\<rparr>),
      saveFailure = None, saveFailureInCatch = None\<rparr>"

text \<open>One result page on which the same listing appears twice.\<close>

definition duplicatePages :: "int \<Rightarrow> page_env" where
  "duplicatePages page =
     quietPage [exampleProduct ''125'' ''Heat'', exampleProduct ''125'' ''Heat'']"

text \<open>
  The actions of a run fall into two kinds. The page loop, the enrichment pass, the
  navigation retries and the commands of the client produce \<open>status\<close>, \<open>progress\<close> and
  \<open>extracting\<close> updates, waits, navigations, extractions, product visits and the closing
  of the browser. Everything else (the launch, the export, \<open>files_saved\<close>, \<open>complete\<close>,
  \<open>error\<close>, \<open>rate_limited\<close>, \<open>waiting\<close>) is kept by \<open>outer\<close>.
\<close>

fun loopAction :: "action \<Rightarrow> bool" where
  "loopAction (Emit (Status s)) = True"
| "loopAction (Emit (Progress p a b c)) = True"
| "loopAction (Emit (Extracting a b)) = True"
| "loopAction (Emit e) = False"
| "loopAction (Sleep n) = True"
| "loopAction (Goto p) = True"
| "loopAction (Extract p) = True"
| "loopAction (Visit i) = True"
| "loopAction CloseBrowser = True"
| "loopAction Launch = False"
| "loopAction (Save rows) = False"

definition outer :: "action list \<Rightarrow> action list" where
  "outer as = filter (\<lambda>a. \<not> loopAction a) as"

text \<open>The updates that announce the end of a run.\<close>

fun terminal :: "event \<Rightarrow> bool" where
  "terminal (Complete n e) = True"
| "terminal (Error msg n) = True"
| "terminal e = False"

definition terminalEvents :: "action list \<Rightarrow> event list" where
  "terminalEvents as = filter terminal (emitted as)"

text \<open>The waits, navigations and extractions of a trace.\<close>

fun isWork :: "action \<Rightarrow> bool" where
  "isWork (Sleep n) = True"
| "isWork (Goto p) = True"
| "isWork (Extract p) = True"
| "isWork a = False"

definition work :: "action list \<Rightarrow> action list" where
  "work as = filter isWork as"

text \<open>
  Page 1 yields one product; on page 2 the browser has crashed and \<open>extractProducts\<close>
  throws.
\<close>

definition crashPages :: "int \<Rightarrow> page_env" where
  "crashPages page =
     (if page = 1 then quietPage [exampleProduct ''125'' ''Heat'']
      else (quietPage [])\<lparr>extracted := Inl ''Target closed''\<rparr>)"

text \<open>A single page with one product.\<close>

definition singlePage :: "int \<Rightarrow> page_env" where
  "singlePage page = quietPage [exampleProduct ''125'' ''Heat'']"

text \<open>The browser cannot be launched.\<close>

definition launchFailure :: run_env where
  "launchFailure = (quietRun singlePage 1)\<lparr>initResult := LaunchFails ''Failed to launch''\<rparr>"

text \<open>The first page times out twice and loads at the third attempt.\<close>

definition slowFirstPage :: run_env where
  "slowFirstPage =
     (quietRun singlePage 1)
       \<lparr>firstLoad := (\<lambda>k. if k < 2 then GotoFails ''Navigation timeout'' else GotoOk searchUrl)\<rparr>"

text \<open>The first page never loads.\<close>

definition deadFirstPage :: run_env where
  "deadFirstPage =
     (quietRun singlePage 1)\<lparr>firstLoad := (\<lambda>k. GotoFails ''Navigation timeout'')\<rparr>"

text \<open>
  How the navigation of an iteration ends depends on the world alone
  (lemma \<open>navigation_exit\<close> below).
\<close>

definition retryExit :: "page_env \<Rightarrow> nav_exit" where
  "retryExit env = (case retryGoto env of GotoFails m \<Rightarrow> NavSkip | GotoOk url \<Rightarrow> NavOk)"

definition navExit :: "page_env \<Rightarrow> nav_exit" where
  "navExit env =
     (case firstGoto env of
        GotoFails m \<Rightarrow> retryExit env
      | GotoOk url \<Rightarrow>
          (case pageTitle env of
             None \<Rightarrow> retryExit env
           | Some title \<Rightarrow>
               if detected url title
               then (case backoffGoto env of
                       GotoFails m \<Rightarrow> retryExit env
                     | GotoOk url2 \<Rightarrow> if stillBlocked url2 then NavBreak else NavOk)
               else NavOk))"




text \<open>A page that answers with the bot challenge, before and after the two-minute wait.\<close>

definition challengePage :: page_env where
  "challengePage =
     (quietPage [])\<lparr>firstGoto := GotoOk challengeUrl, pageTitle := Some ''Security Measure'',
                    backoffGoto := GotoOk challengeUrl\<rparr>"


text \<open>
  Page 1 yields one product; page 2 is the bot challenge, the client stops the task
  during the two-minute wait, and with the browser closed every later navigation fails.
\<close>

definition stoppedInBackoff :: "int \<Rightarrow> page_env" where
  "stoppedInBackoff page =
     (if page = 1 then quietPage [exampleProduct ''125'' ''Heat'']
      else challengePage\<lparr>duringBackoff := [StopTask],
                         backoffGoto := GotoFails ''Target closed'',
                         retryGoto := GotoFails ''Target closed''\<rparr>)"

text \<open>Pages 1 and 2 yield one product each; every later page is empty.\<close>

definition emptyTail :: "int \<Rightarrow> page_env" where
  "emptyTail page =
     (if page = 1 then quietPage [exampleProduct ''125'' ''Heat'']
      else if page = 2 then quietPage [exampleProduct ''126'' ''Ronin'']
      else quietPage [])"

text \<open>
  What duplicate removal maintains from page to page: the collected products have
  pairwise different item numbers, all of them in \<open>seenItems\<close>. It is maintained as long
  as no candidate list names an item twice.
\<close>

definition dedupInv :: "task \<Rightarrow> bool" where
  "dedupInv t =
     (distinct (map itemNumber (products t)) \<and> itemNumber ` set (products t) \<subseteq> seenItems t)"

definition distinctCandidates :: "page_env \<Rightarrow> bool" where
  "distinctCandidates env =
     (case extracted env of Inl msg \<Rightarrow> True | Inr ps \<Rightarrow> distinct (map itemNumber ps))"

text \<open>
  What the queue maintains as long as no \<open>stop_all\<close> arrives and every submitted task
  has a new id: the counter equals the number of pending sessions, it does not exceed
  the cap, and no task is pending or queued twice.
\<close>

definition queueInv :: "server \<Rightarrow> bool" where
  "queueInv s =
     (activeBrowserCount s = int (length (pending s))
      \<and> activeBrowserCount s \<le> MAX_CONCURRENT_BROWSERS
      \<and> distinct (map fst (pending s) @ taskQueue s))"

fun admissible :: "message \<Rightarrow> server \<Rightarrow> bool" where
  "admissible (StartMulti ids) s =
     (distinct ids \<and> set ids \<inter> (fst ` set (pending s) \<union> set (taskQueue s)) = {})"
| "admissible StopAll s = False"
| "admissible m s = True"

fun admissibleAll :: "message list \<Rightarrow> server \<Rightarrow> bool" where
  "admissibleAll [] s = True"
| "admissibleAll (m # ms) s = (admissible m s \<and> admissibleAll ms (handle m s))"







lemmas run_defs = startScraping_def scrape_def init_def afterLoop_def onFatal_def
  saveResults_def pageLoop.simps pageIteration_def extractAndCollect_def emptyCheck_def
  collect_def filterDuplicates_def navigation_def tryNavigate_def retryNavigate_def
  cleanup_def stop_def pause_def resume_def
  computeTotalPages_def estimatedResults_def num_or_def ceil_div_def le_num_def ge_num_def
  deliverAll_def Let_def numeral_3_eq_3 numeral_2_eq_2 itemNumber_def getProp_def detected_def
  stillBlocked_def quietPage_def quietRun_def searchUrl_def newTask_def
  exampleOptions_def exampleProduct_def

section \<open>Export rows\<close>

lemma setProp_fresh: "k \<notin> fst ` set p \<Longrightarrow> setProp p k v = p @ [(k, v)]"
  by (induction p) auto

lemma foldl_setProp:
  "distinct (map fst acc @ cols) \<Longrightarrow>
   foldl (\<lambda>formatted col. setProp formatted col (g col)) acc cols
     = acc @ map (\<lambda>c. (c, g c)) cols"
proof (induction cols arbitrary: acc)
  case Nil
  then show ?case by simp
next
  case (Cons c cols)
  have fresh: "c \<notin> fst ` set acc" using Cons.prems by auto
  have "distinct (map fst (acc @ [(c, g c)]) @ cols)" using Cons.prems by auto
  from Cons.IH [OF this] show ?case by (simp add: setProp_fresh [OF fresh])
qed

lemma distinct_requiredCols: "distinct requiredCols"
  by (simp add: requiredCols_def)

lemma formatProduct_eq:
  "formatProduct p = map (\<lambda>col. (col, js_or (getProp p col) (JStr ''''))) requiredCols"
  unfolding formatProduct_def
  using foldl_setProp [of "[]" requiredCols "\<lambda>col. js_or (getProp p col) (JStr '''')"]
  by (simp add: distinct_requiredCols)

text \<open>
  C10. Whatever the collected products are, \<open>saveResults\<close> writes one row per product, in
  order; the keys of every row are exactly the thirteen required columns in their fixed
  order (so any other field of the product is dropped), and the value under a column is
  the product's value when that is truthy and the empty string otherwise (absent,
  \<open>undefined\<close>, \<open>null\<close>, \<open>false\<close>, \<open>0\<close> and the empty string all become the empty
  string).
\<close>

theorem saveResults_rows:
  "saveResults None t =
     (None, sendUpdate FilesSaved (act (Save (formattedProducts (products t))) t))
   \<and> map (map fst) (formattedProducts ps) = replicate (length ps) requiredCols
   \<and> map (map snd) (formattedProducts ps)
       = map (\<lambda>p. map (\<lambda>col. if truthy (getProp p col) then getProp p col else JStr '''')
                     requiredCols) ps
   \<and> length requiredCols = 13"
proof -
  have keys: "map fst (formatProduct p) = requiredCols" for p
    by (simp add: formatProduct_eq comp_def)
  have vals: "map snd (formatProduct p)
      = map (\<lambda>col. if truthy (getProp p col) then getProp p col else JStr '''') requiredCols"
    for p
    by (simp add: formatProduct_eq comp_def js_or_def)
  have k: "map (map fst) (formattedProducts ps) = replicate (length ps) requiredCols"
    by (induction ps) (simp_all add: formattedProducts_def keys)
  have v: "map (map snd) (formattedProducts ps)
      = map (\<lambda>p. map (\<lambda>col. if truthy (getProp p col) then getProp p col else JStr '''')
                    requiredCols) ps"
    by (simp add: formattedProducts_def vals)
  have n: "length requiredCols = 13"
    by (simp add: requiredCols_def)
  show ?thesis
    using k v n by (simp add: saveResults_def)
qed

theorem saveResults_rows_witness:
  "formattedProducts [(''Seller'', JStr ''abc'') # exampleProduct ''125'' ''Heat'']
     = [[(''Title'', JStr ''Heat''), (''Price'', JStr ''''),
         (''Ebay_Item_Number'', JStr ''125''), (''EAN'', JStr ''''),
         (''Description'', JStr ''''), (''Image_URL_1'', JStr ''''),
         (''Image_URL_2'', JStr ''''), (''Image_URL_3'', JStr ''''),
         (''Image_URL_4'', JStr ''''), (''Condition'', JStr ''Used''),
         (''Shipping'', JStr ''''), (''URL'', JStr ''https://www.ebay.co.uk/itm/125''),
         (''Scraped_At'', JStr '''')]]"
proof -
  let ?p = "(''Seller'', JStr ''abc'') # exampleProduct ''125'' ''Heat''"
  have k: "map (map fst) (formattedProducts [?p]) = replicate (length [?p]) requiredCols"
    and v: "map (map snd) (formattedProducts [?p])
      = map (\<lambda>p. map (\<lambda>col. if truthy (getProp p col) then getProp p col else JStr '''')
                    requiredCols) [?p]"
    using saveResults_rows [of undefined "[?p]"] by simp_all
  obtain row where row: "formattedProducts [?p] = [row]"
    by (simp add: formattedProducts_def)
  have "map fst row = requiredCols"
    using k by (simp add: row)
  moreover have "map snd row
      = map (\<lambda>col. if truthy (getProp ?p col) then getProp ?p col else JStr '''')
          requiredCols"
    using v by (simp add: row)
  ultimately have "row = zip requiredCols
      (map (\<lambda>col. if truthy (getProp ?p col) then getProp ?p col else JStr '''')
         requiredCols)"
    by (metis zip_map_fst_snd)
  then show ?thesis
    unfolding row by (simp add: requiredCols_def getProp_def exampleProduct_def)
qed

section \<open>Page budget\<close>

lemma ceil_div_real: "b \<noteq> 0 \<Longrightarrow> ceil_div a b = \<lceil>real_of_int a / real_of_int b\<rceil>"
  by (simp add: ceil_div_def ceiling_divide_eq_div)

text \<open>
  Division in double precision returns the double nearest to the exact quotient. That
  rounding \<open>rnd\<close> is monotone, leaves whole numbers up to \<open>2^53\<close> as they are, and between
  \<open>2^-53\<close> and \<open>2^53\<close> (well inside the normal range) has a relative error of at most
  \<open>2^-53\<close>. For every such rounding, and every count and page size below \<open>2^53\<close>, the
  ceiling of the rounded quotient is the exact ceiling.
\<close>

lemma ceil_div_rounded:
  fixes rnd :: "real \<Rightarrow> real"
  assumes mono: "\<And>x y. x \<le> y \<Longrightarrow> rnd x \<le> rnd y"
    and exact: "\<And>k::int. \<bar>k\<bar> \<le> 2 ^ 53 \<Longrightarrow> rnd (of_int k) = of_int k"
    and err: "\<And>x. 1 / 2 ^ 53 \<le> x \<Longrightarrow> x \<le> 2 ^ 53 \<Longrightarrow> \<bar>rnd x - x\<bar> \<le> x / 2 ^ 53"
    and T: "0 < T" "T < 2 ^ 53" and S: "0 < S" "S < 2 ^ 53"
  shows "\<lceil>rnd (of_int T / of_int S)\<rceil> = ceil_div T S"
proof -
  define q :: real where "q = of_int T / of_int S"
  define n where "n = T div S"
  have Sr: "0 < (of_int S :: real)" using S by simp
  have n0: "0 \<le> n" using T S by (simp add: n_def pos_imp_zdiv_nonneg_iff)
  have nT: "n \<le> T"
  proof -
    have "n * 1 \<le> n * S" using n0 S by (intro mult_left_mono) simp_all
    also have "\<dots> \<le> n * S + T mod S" using S by simp
    also have "\<dots> = T" by (simp add: n_def)
    finally show ?thesis by simp
  qed
  show ?thesis
  proof (cases "S dvd T")
    case True
    then have qn: "q = of_int n"
      using S by (simp add: q_def n_def real_of_int_div)
    have "\<bar>n\<bar> \<le> 2 ^ 53" using n0 nT T by simp
    then have "rnd q = of_int n" unfolding qn by (rule exact)
    moreover have "ceil_div T S = n"
      using True by (simp add: ceil_div_def n_def dvd_neg_div)
    ultimately show ?thesis by (simp add: q_def)
  next
    case False
    have m0: "T mod S \<noteq> 0" using False by (simp add: dvd_eq_mod_eq_0)
    have m1: "0 \<le> T mod S" using S by simp
    have r: "1 \<le> T mod S" "T mod S < S"
    proof -
      show "1 \<le> T mod S" using m0 m1 by linarith
      show "T mod S < S" using S by simp
    qed
    have Teq: "T = n * S + T mod S" by (simp add: n_def)
    have qeq: "q = of_int n + of_int (T mod S) / of_int S"
    proof -
      have "(of_int T :: real) = of_int (n * S + T mod S)"
        using arg_cong [OF Teq, of of_int] .
      then have "of_int T = (of_int n * of_int S + of_int (T mod S) :: real)"
        by simp
      then show ?thesis using Sr by (simp add: q_def field_simps)
    qed
    have lo: "of_int n + 1 / of_int S \<le> q"
      using r(1) Sr unfolding qeq by (simp add: divide_right_mono)
    have hi: "q < of_int n + 1"
      using r(2) Sr unfolding qeq by simp
    have qpos: "0 < q" using T Sr by (simp add: q_def)
    define d where "d = q / 2 ^ 53"
    have small: "d < 1 / of_int S"
    proof -
      have "of_int T < (2 ^ 53 :: real)" using T(2) by simp
      then have "of_int T / (of_int S * 2 ^ 53) < (2 ^ 53 :: real) / (of_int S * 2 ^ 53)"
        using Sr by (intro divide_strict_right_mono) simp_all
      then show ?thesis by (simp add: q_def d_def)
    qed
    have qlo: "1 / 2 ^ 53 \<le> q"
    proof -
      have "of_int S < (2 ^ 53 :: real)" using S(2) by simp
      then have "1 / (2 ^ 53 :: real) < 1 / of_int S"
        using Sr by (intro divide_strict_left_mono) simp_all
      moreover have "1 / of_int S \<le> q" using lo n0 by linarith
      ultimately show ?thesis by linarith
    qed
    have qhi: "q \<le> 2 ^ 53"
    proof -
      have "n + 1 \<le> 2 ^ 53" using nT T(2) by linarith
      then have "(of_int (n + 1) :: real) \<le> of_int (2 ^ 53)" by (simp only: of_int_le_iff)
      then have "(of_int n :: real) + 1 \<le> 2 ^ 53" by simp
      then show ?thesis using hi by linarith
    qed
    have "\<bar>rnd q - q\<bar> \<le> q / 2 ^ 53" using qlo qhi by (rule err)
    then have "\<bar>rnd q - q\<bar> \<le> d" by (simp only: d_def)
    then have "q - d \<le> rnd q" by linarith
    then have gt: "of_int n < rnd q"
      using lo small by linarith
    have "\<bar>n + 1\<bar> \<le> 2 ^ 53" using n0 nT T by simp
    then have "rnd (of_int (n + 1)) = of_int (n + 1)" by (rule exact)
    moreover have "rnd q \<le> rnd (of_int (n + 1))"
      using hi by (intro mono) simp
    ultimately have le: "rnd q \<le> of_int (n + 1)" by simp
    have "\<lceil>rnd q\<rceil> = n + 1"
      using gt le by (intro ceiling_unique) simp_all
    moreover have "ceil_div T S = n + 1"
    proof -
      have "ceil_div T S = \<lceil>q\<rceil>"
        using S by (simp add: ceil_div_real q_def)
      also have "\<dots> = n + 1"
      proof (rule ceiling_unique)
        have "0 < 1 / (of_int S :: real)" using Sr by simp
        then have "of_int n < q" using lo by linarith
        then show "of_int (n + 1) - 1 < q" by simp
        show "q \<le> of_int (n + 1)" using hi by simp
      qed
      finally show ?thesis .
    qed
    ultimately show ?thesis by (simp add: q_def)
  qed
qed

lemma pageLoop_NaN: "totalPages t = None \<Longrightarrow> pageLoop pgs page t = (Finished, t)"
  by (simp add: pageLoop.simps [of pgs page t] le_num_def)

text \<open>
  C3, as stated, fails. The heading gives no count, 50 product elements are on the first
  page, the page size is 60 and no cap is requested (\<open>maxPages = 0\<close>): the budget is not
  the default \<open>maxPages || 100 = 100\<close> but \<open>ceil(5000 / 60) = 84\<close>, computed from the
  estimate of 100 results per element.
\<close>

theorem computeTotalPages_counterexample:
  "itemsPerPage exampleOptions = Some 60
   \<and> maxPages exampleOptions = Some 0
   \<and> computeTotalPages exampleOptions \<lparr>totalResults = 0, productCount = 50\<rparr> = Some 84
   \<and> num_or (maxPages exampleOptions) 100 = 100"
  by (simp add: computeTotalPages_def estimatedResults_def exampleOptions_def num_or_def
      ceil_div_def)

text \<open>
  C3, amended. For a parsed count \<open>0 < T < 2^53\<close> and a page size \<open>0 < S < 2^53\<close>: with a
  requested cap \<open>C \<noteq> 0\<close> the budget is \<open>min(ceil(T/S), C)\<close>; with \<open>maxPages = 0\<close> (no cap)
  it is \<open>ceil(T/S)\<close>; with \<open>maxPages\<close> absent from the options it is \<open>NaN\<close>, and the page
  loop then visits no page. \<open>ceil_div\<close> is the ceiling of the quotient. When no count is
  parsed and no product element is seen, the budget is the requested cap if there is one
  and it is not \<open>0\<close>, and \<open>100\<close> otherwise. When no count is parsed and \<open>P > 0\<close> product
  elements are seen (\<open>100 * P < 2^53\<close>), the count is taken to be \<open>100 * P\<close>. For page size
  60, 185 results and \<open>maxPages = 0\<close> the budget is 4.
\<close>

theorem computeTotalPages_budget:
  "(0 < T \<and> T < 2 ^ 53 \<and> 0 < S \<and> S < 2 ^ 53 \<and> totalResults pinfo = T
      \<and> itemsPerPage os = Some S \<longrightarrow>
      (maxPages os = Some C \<longrightarrow>
         computeTotalPages os pinfo
           = Some (if C = 0 then ceil_div T S else min (ceil_div T S) C))
      \<and> (maxPages os = None \<longrightarrow> computeTotalPages os pinfo = None)
      \<and> ceil_div T S = \<lceil>real_of_int T / real_of_int S\<rceil>)
   \<and> (totalPages t = None \<longrightarrow> pageLoop pgs page t = (Finished, t))
   \<and> (totalResults pinfo = 0 \<and> productCount pinfo = 0 \<longrightarrow>
        computeTotalPages os pinfo = Some (num_or (maxPages os) 100))
   \<and> (totalResults pinfo = 0 \<and> 0 < productCount pinfo \<and> productCount pinfo * 100 < 2 ^ 53
        \<and> 0 < S \<and> S < 2 ^ 53 \<and> itemsPerPage os = Some S \<longrightarrow>
        (maxPages os = Some C \<longrightarrow>
           computeTotalPages os pinfo
             = Some (if C = 0 then ceil_div (productCount pinfo * 100) S
                     else min (ceil_div (productCount pinfo * 100) S) C))
        \<and> (maxPages os = None \<longrightarrow> computeTotalPages os pinfo = None))
   \<and> computeTotalPages (os\<lparr>itemsPerPage := Some 60, maxPages := Some 0\<rparr>)
        (pinfo\<lparr>totalResults := 185\<rparr>) = Some 4"
proof -
  have a: "computeTotalPages os pinfo
        = Some (if C = 0 then ceil_div T S else min (ceil_div T S) C)"
    if "0 < T" "0 < S" "totalResults pinfo = T" "itemsPerPage os = Some S" "maxPages os = Some C"
    using that by (simp add: computeTotalPages_def estimatedResults_def num_or_def)
  have b: "computeTotalPages os pinfo = None"
    if "0 < T" "0 < S" "totalResults pinfo = T" "itemsPerPage os = Some S" "maxPages os = None"
    using that by (simp add: computeTotalPages_def estimatedResults_def num_or_def)
  have c: "ceil_div T S = \<lceil>real_of_int T / real_of_int S\<rceil>" if "0 < S"
    using that by (simp add: ceil_div_real)
  have d: "computeTotalPages os pinfo = Some (num_or (maxPages os) 100)"
    if "totalResults pinfo = 0" "productCount pinfo = 0"
    using that by (simp add: computeTotalPages_def estimatedResults_def)
  have e: "computeTotalPages os pinfo
        = Some (if C = 0 then ceil_div (productCount pinfo * 100) S
                else min (ceil_div (productCount pinfo * 100) S) C)"
    if "totalResults pinfo = 0" "0 < productCount pinfo" "0 < S" "itemsPerPage os = Some S"
      "maxPages os = Some C"
    using that by (simp add: computeTotalPages_def estimatedResults_def num_or_def)
  have f: "computeTotalPages os pinfo = None"
    if "totalResults pinfo = 0" "0 < productCount pinfo" "0 < S" "itemsPerPage os = Some S"
      "maxPages os = None"
    using that by (simp add: computeTotalPages_def estimatedResults_def num_or_def)
  have g: "computeTotalPages (os\<lparr>itemsPerPage := Some 60, maxPages := Some 0\<rparr>)
        (pinfo\<lparr>totalResults := 185\<rparr>) = Some 4"
    by (simp add: computeTotalPages_def estimatedResults_def num_or_def ceil_div_def)
  show ?thesis
    using a b c d e f g pageLoop_NaN [of t pgs page] by simp
qed

theorem computeTotalPages_budget_witness:
  "computeTotalPages (exampleOptions\<lparr>maxPages := Some 3\<rparr>)
      \<lparr>totalResults = 185, productCount = 60\<rparr> = Some 3
   \<and> computeTotalPages (exampleOptions\<lparr>maxPages := None\<rparr>)
      \<lparr>totalResults = 185, productCount = 60\<rparr> = None
   \<and> pageLoop singlePage 1 ((newTask exampleOptions)\<lparr>isRunning := True, totalPages := None\<rparr>)
       = (Finished, (newTask exampleOptions)\<lparr>isRunning := True, totalPages := None\<rparr>)
   \<and> computeTotalPages (exampleOptions\<lparr>maxPages := Some 7\<rparr>)
      \<lparr>totalResults = 0, productCount = 0\<rparr> = Some 7
   \<and> computeTotalPages exampleOptions \<lparr>totalResults = 0, productCount = 0\<rparr> = Some 100
   \<and> computeTotalPages (exampleOptions\<lparr>maxPages := Some 9\<rparr>)
      \<lparr>totalResults = 0, productCount = 3\<rparr> = Some 5"
proof -
  let ?n = "(newTask exampleOptions)\<lparr>isRunning := True, totalPages := None\<rparr>"
  have a: "computeTotalPages (exampleOptions\<lparr>maxPages := Some 3\<rparr>)
      \<lparr>totalResults = 185, productCount = 60\<rparr> = Some 3"
    using computeTotalPages_budget [of 185 60 "\<lparr>totalResults = 185, productCount = 60\<rparr>"
        "exampleOptions\<lparr>maxPages := Some 3\<rparr>" 3]
    by (simp add: exampleOptions_def ceil_div_def)
  have a': "computeTotalPages (exampleOptions\<lparr>maxPages := None\<rparr>)
      \<lparr>totalResults = 185, productCount = 60\<rparr> = None"
    using computeTotalPages_budget [of 185 60 "\<lparr>totalResults = 185, productCount = 60\<rparr>"
        "exampleOptions\<lparr>maxPages := None\<rparr>"]
    by (simp add: exampleOptions_def)
  have l: "pageLoop singlePage 1 ?n = (Finished, ?n)"
    using computeTotalPages_budget [of _ _ _ _ _ ?n singlePage 1]
    by (simp add: newTask_def)
  have b: "computeTotalPages (exampleOptions\<lparr>maxPages := Some 7\<rparr>)
      \<lparr>totalResults = 0, productCount = 0\<rparr> = Some 7"
    using computeTotalPages_budget [of 1 1 "\<lparr>totalResults = 0, productCount = 0\<rparr>"
        "exampleOptions\<lparr>maxPages := Some 7\<rparr>" 7]
    by (simp add: exampleOptions_def num_or_def)
  have c: "computeTotalPages exampleOptions \<lparr>totalResults = 0, productCount = 0\<rparr> = Some 100"
    using computeTotalPages_budget [of 1 1 "\<lparr>totalResults = 0, productCount = 0\<rparr>"
        exampleOptions 0]
    by (simp add: exampleOptions_def num_or_def)
  have d: "computeTotalPages (exampleOptions\<lparr>maxPages := Some 9\<rparr>)
      \<lparr>totalResults = 0, productCount = 3\<rparr> = Some 5"
    using computeTotalPages_budget [of 1 60 "\<lparr>totalResults = 0, productCount = 3\<rparr>"
        "exampleOptions\<lparr>maxPages := Some 9\<rparr>" 9]
    by (simp add: exampleOptions_def ceil_div_def)
  show ?thesis using a a' l b c d by simp
qed

section \<open>Backoff\<close>

lemma emitted_append [simp]: "emitted (xs @ ys) = emitted xs @ emitted ys"
  by (induction xs rule: emitted.induct) simp_all

lemma deliverAll_Nil [simp]: "deliverAll [] t = t"
  by (simp add: deliverAll_def)

lemma waitLoop_frame [simp]:
  "retryCount (waitLoop ticks n t) = retryCount t"
  "maxRetries (waitLoop ticks n t) = maxRetries t"
  by (induction n arbitrary: ticks t; simp)+

lemma handleRateLimit_retryCount [simp]:
  "retryCount (handleRateLimit ticks t) = retryCount t + 1"
  "maxRetries (handleRateLimit ticks t) = maxRetries t"
  by (simp_all add: handleRateLimit_def Let_def)

lemma detections_retryCount [simp]:
  "retryCount (detections tickss t) = retryCount t + length tickss"
  "maxRetries (detections tickss t) = maxRetries t"
  by (induction tickss arbitrary: t; simp)+

lemma waitLoop_quiet:
  "isRunning (waitLoop [] n t) = isRunning t"
  "isPaused (waitLoop [] n t) = isPaused t"
  by (induction n arbitrary: t; simp)+

lemma waitLoop_quiet_emitted:
  "isRunning t \<Longrightarrow> \<not> isPaused t \<Longrightarrow>
   emitted (trace (waitLoop [] n t)) = emitted (trace t) @ map Waiting (rev [1..<Suc n])"
  by (induction n arbitrary: t) simp_all

lemma handleRateLimit_quiet:
  "isRunning (handleRateLimit [] t) = isRunning t"
  "isPaused (handleRateLimit [] t) = isPaused t"
  by (simp_all add: handleRateLimit_def Let_def waitLoop_quiet)

lemma detections_quiet:
  "isRunning (detections (replicate n []) t) = isRunning t"
  "isPaused (detections (replicate n []) t) = isPaused t"
  by (induction n arbitrary: t; simp add: handleRateLimit_quiet)+

lemma pageLoop_exit:
  "\<not> (le_num page (totalPages t) \<and> isRunning t) \<Longrightarrow> pageLoop env page t = (Finished, t)"
  by (auto simp: pageLoop.simps [of env page t])

lemma pageLoop_step:
  "le_num page (totalPages t) \<Longrightarrow> isRunning t \<Longrightarrow>
   pageLoop env page t =
     (case pageIteration (env page) page t of
        (Next, t1) \<Rightarrow> pageLoop env (page + 1) t1
      | (Break, t1) \<Rightarrow> (Finished, t1)
      | (Throw msg, t1) \<Rightarrow> (Failed msg, t1)
      | (Hang, t1) \<Rightarrow> (Hung, t1))"
  by (simp add: pageLoop.simps [of env page t])

lemma pageLoop_retryCount: "retryCount (snd (pageLoop env page t)) = retryCount t"
proof (induction env page t rule: pageLoop.induct)
  case (1 env page t)
  obtain fl t1 where it: "pageIteration (env page) page t = (fl, t1)"
    by (cases "pageIteration (env page) page t")
  have fr: "retryCount t1 = retryCount t"
    using pageIteration_frame(3) [of "env page" page t] by (simp add: it)
  show ?case
  proof (cases "le_num page (totalPages t) \<and> isRunning t")
    case True
    show ?thesis
    proof (cases fl)
      case Next
      have "retryCount (snd (pageLoop env (page + 1) t1)) = retryCount t1"
        using 1 True it Next by auto
      then show ?thesis
        using True it Next fr by (simp add: pageLoop_step)
    qed (use True it fr in \<open>simp_all add: pageLoop_step\<close>)
  next
    case False
    then show ?thesis by (simp add: pageLoop_exit)
  qed
qed

lemma retryCount_loadFirstPage [simp]:
  "retryCount (snd (loadFirstPage attempt n t)) = retryCount t"
  by (induction n arbitrary: t) (simp_all add: Let_def split: goto_result.splits)

lemma retryCount_detailsLoop [simp]:
  "retryCount (snd (detailsLoop env m i n t)) = retryCount t"
proof (induction n arbitrary: i t)
  case 0
  then show ?case by simp
next
  case (Suc n)
  obtain b t1 where w: "waitIfPaused (dTicks (env i)) t = (b, t1)"
    by (cases "waitIfPaused (dTicks (env i)) t")
  have r1: "retryCount t1 = retryCount t"
    using waitIfPaused_frame(5) [of "dTicks (env i)" t] by (simp add: w)
  obtain c t2 where v: "visitProduct (env i) i m t1 = (c, t2)"
    by (cases "visitProduct (env i) i m t1")
  have r2: "retryCount t2 = retryCount t"
    using v r1 by (auto simp: visitProduct_def Let_def split: detail_result.splits if_splits)
  show ?case
    by (cases b; cases c; simp add: w v r1 r2 Suc.IH)
qed

lemma retryCount_afterLoop [simp]: "retryCount (snd (afterLoop env t)) = retryCount t"
proof -
  obtain b t1 where d: "detailsLoop (details env) (length (products t)) 0
      (length (products t)) t = (b, t1)"
    by (cases "detailsLoop (details env) (length (products t)) 0 (length (products t)) t")
  have "retryCount t1 = retryCount t"
    using retryCount_detailsLoop [of "details env" "length (products t)" 0
        "length (products t)" t]
    by (simp add: d)
  then show ?thesis
    by (cases b)
      (simp_all add: afterLoop_def extractProductDetails_def saveResults_def d
        split: option.splits)
qed

lemma retryCount_scrape [simp]: "retryCount (snd (scrape env t)) = retryCount t"
proof -
  obtain r1 t1 where i: "init (initResult env) t = (r1, t1)"
    by (cases "init (initResult env) t")
  have c1: "retryCount t1 = retryCount t"
    using i by (auto simp: init_def Let_def split: init_result.splits)
  obtain r2 t2 where l: "loadFirstPage (firstLoad env) 3
      (sendUpdate (Status ''loading_first_page'') t1) = (r2, t2)"
    by (cases "loadFirstPage (firstLoad env) 3 (sendUpdate (Status ''loading_first_page'') t1)")
  have c2: "retryCount t2 = retryCount t"
    using retryCount_loadFirstPage [of "firstLoad env" 3
        "sendUpdate (Status ''loading_first_page'') t1"]
    by (simp add: l c1)
  show ?thesis
  proof (cases r1)
    case (Some msg)
    then show ?thesis by (simp add: scrape_def i c1)
  next
    case None
    note r1 = this
    show ?thesis
    proof (cases r2)
      case (Some msg)
      then show ?thesis by (simp add: scrape_def i r1 l c2)
    next
      case None
      note r2 = this
      show ?thesis
      proof (cases "pageInfo env")
        case (Inl msg)
        then show ?thesis by (simp add: scrape_def i r1 l r2 c2)
      next
        case (Inr pinfo)
        define t4 where "t4 = deliverAll (duringSetup env)
          (sendUpdate (Status ''scraping'') (t2\<lparr>totalPages := computeTotalPages (opts t2) pinfo\<rparr>))"
        have c4: "retryCount t4 = retryCount t"
          by (simp add: t4_def c2)
        obtain r5 t5 where p: "pageLoop (pages env) 1 t4 = (r5, t5)"
          by (cases "pageLoop (pages env) 1 t4")
        have c5: "retryCount t5 = retryCount t"
          using pageLoop_retryCount [of "pages env" 1 t4] by (simp add: p c4)
        have s: "scrape env t = (case r5 of Finished \<Rightarrow> afterLoop env t5
            | Failed msg \<Rightarrow> (Failed msg, t5) | Hung \<Rightarrow> (Hung, t5))"
          using p by (simp add: scrape_def i r1 l r2 Inr Let_def t4_def)
        show ?thesis
          by (cases r5) (simp_all add: s c5)
      qed
    qed
  qed
qed

lemma startScraping_retryCount: "retryCount (snd (startScraping env t)) = retryCount t"
proof -
  define t0 where "t0 = sendUpdate (Status ''scraping'') (t\<lparr>isRunning := True\<rparr>)"
  obtain r t1 where s: "scrape env t0 = (r, t1)"
    by (cases "scrape env t0")
  have "retryCount t1 = retryCount t"
    using retryCount_scrape [of env t0] by (simp add: s) (simp add: t0_def)
  then show ?thesis
    by (cases r)
      (simp_all add: startScraping_def t0_def [symmetric] s onFatal_def saveResults_def
        cleanup_def Let_def split: option.splits)
qed

text \<open>
  C6, as stated, fails: after five consecutive detections on a new, running task, with
  no command arriving, the retry count is 5 and exceeds \<open>maxRetries = 3\<close>, yet the task is
  still running; the next wait would be 210 seconds.
\<close>

theorem handleRateLimit_counterexample:
  "retryCount (detections [[], [], [], [], []] ((newTask exampleOptions)\<lparr>isRunning := True\<rparr>)) = 5
   \<and> maxRetries (detections [[], [], [], [], []] ((newTask exampleOptions)\<lparr>isRunning := True\<rparr>)) = 3
   \<and> isRunning (detections [[], [], [], [], []] ((newTask exampleOptions)\<lparr>isRunning := True\<rparr>))
   \<and> waitTime (detections [[], [], [], [], []] ((newTask exampleOptions)\<lparr>isRunning := True\<rparr>)) = 210"
proof -
  have r: "[[], [], [], [], []] = replicate 5 ([] :: command list list)"
    by (simp add: eval_nat_numeral)
  show ?thesis
    unfolding r by (simp add: detections_quiet waitTime_def newTask_def)
qed

text \<open>
  C6, amended. Every call of \<open>handleRateLimit\<close> computes the wait
  \<open>60 + retryCount * 30\<close> seconds, announces it in a \<open>rate_limited\<close> update followed by
  one \<open>waiting\<close> update per second, and then adds one to \<open>retryCount\<close>; so each wait
  exceeds the previous one by 30 seconds and there is no cap. Nothing resets
  \<open>retryCount\<close>: a whole run of \<open>startScraping\<close> leaves it as it is. \<open>maxRetries\<close> is
  never changed or consulted, and \<open>handleRateLimit\<close> itself never stops the task.
\<close>

theorem handleRateLimit_backoff:
  "waitTime t = 60 + retryCount t * 30
   \<and> retryCount (handleRateLimit ticks t) = retryCount t + 1
   \<and> waitTime (handleRateLimit ticks t) = waitTime t + 30
   \<and> waitTime (detections tickss t) = 60 + (retryCount t + length tickss) * 30
   \<and> maxRetries (detections tickss t) = maxRetries t
   \<and> isRunning (detections (replicate n []) t) = isRunning t
   \<and> retryCount (snd (startScraping env t)) = retryCount t
   \<and> (isRunning t \<and> \<not> isPaused t \<longrightarrow>
        emitted (trace (handleRateLimit [] t))
          = emitted (trace t) @ RateLimited (waitTime t) (retryCount t)
              # map Waiting (rev [1..<Suc (waitTime t)]))"
  by (simp add: waitTime_def detections_quiet startScraping_retryCount)
    (simp add: handleRateLimit_def Let_def waitLoop_quiet_emitted waitTime_def)

theorem handleRateLimit_backoff_witness:
  "waitTime ((newTask exampleOptions)\<lparr>isRunning := True\<rparr>) = 60
   \<and> waitTime (handleRateLimit [] ((newTask exampleOptions)\<lparr>isRunning := True\<rparr>)) = 90
   \<and> waitTime (detections [[], [], []] ((newTask exampleOptions)\<lparr>isRunning := True\<rparr>)) = 150
   \<and> hd (emitted (trace (handleRateLimit [] ((newTask exampleOptions)\<lparr>isRunning := True\<rparr>))))
       = RateLimited 60 0
   \<and> length (emitted (trace (handleRateLimit [] ((newTask exampleOptions)\<lparr>isRunning := True\<rparr>))))
       = 61"
proof -
  let ?t = "(newTask exampleOptions)\<lparr>isRunning := True\<rparr>"
  have h: "isRunning ?t \<and> \<not> isPaused ?t" "retryCount ?t = 0" "trace ?t = []"
    by (simp_all add: newTask_def)
  have w: "waitTime ?t = 60"
    using handleRateLimit_backoff [of ?t "[]" "[[], [], []]" 0] h by simp
  show ?thesis
    using handleRateLimit_backoff [of ?t "[]" "[[], [], []]" 0] h
    by (simp add: w)
qed

section \<open>The task queue under \<open>stop_all\<close>\<close>

text \<open>
  The queue is served from the front: the tasks started so far, followed by the tasks
  still queued, are the same list before and after \<open>processTaskQueue\<close>. And without
  \<open>stop_all\<close> the cap holds: after any sequence of submissions of new ids, \<open>stop_task\<close>
  messages and settled promises, at most \<open>MAX_CONCURRENT_BROWSERS\<close> sessions are pending.
\<close>

lemma processTaskQueue_fifo:
  "started (processTaskQueue s) @ taskQueue (processTaskQueue s) = started s @ taskQueue s"
proof (induction s rule: processTaskQueue.induct)
  case (1 s)
  show ?case
  proof (cases "activeBrowserCount s < MAX_CONCURRENT_BROWSERS \<and> length (taskQueue s) > 0")
    case True
    then show ?thesis
      using 1 by (subst (1 2) processTaskQueue.simps) (cases "taskQueue s"; simp)
  next
    case False
    then show ?thesis
      by (subst (1 2) processTaskQueue.simps) auto
  qed
qed

lemma processTaskQueue_inv: "queueInv s \<Longrightarrow> queueInv (processTaskQueue s)"
proof (induction s rule: processTaskQueue.induct)
  case (1 s)
  show ?case
  proof (cases "activeBrowserCount s < MAX_CONCURRENT_BROWSERS \<and> length (taskQueue s) > 0")
    case True
    let ?s = "s\<lparr>taskQueue := tl (taskQueue s),
                activeBrowserCount := activeBrowserCount s + 1,
                pending := pending s @ [(hd (taskQueue s), True)],
                started := started s @ [hd (taskQueue s)]\<rparr>"
    have "queueInv ?s"
      using True "1.prems" by (cases "taskQueue s") (auto simp: queueInv_def)
    then have "queueInv (processTaskQueue ?s)"
      using "1.IH" True by simp
    then show ?thesis
      using True by (subst processTaskQueue.simps) simp
  next
    case False
    then show ?thesis
      using "1.prems" by (subst processTaskQueue.simps) auto
  qed
qed

lemma stopPending_fst [simp]: "map fst (stopPending taskId ps) = map fst ps"
  by (induction ps) (auto simp: stopPending_def)

lemma fst_set_stopPending [simp]: "fst ` set (stopPending taskId ps) = fst ` set ps"
  using stopPending_fst [of taskId ps] by (metis set_map)

lemma length_stopPending [simp]: "length (stopPending taskId ps) = length ps"
  by (simp add: stopPending_def)

lemma filter_one_out:
  "distinct (map fst ps) \<Longrightarrow> i \<in> fst ` set ps \<Longrightarrow>
   Suc (length (filter (\<lambda>(j, r). j \<noteq> i) ps)) = length ps"
proof (induction ps)
  case Nil
  then show ?case by simp
next
  case (Cons p ps)
  obtain j r where p: "p = (j, r)" by (cases p)
  show ?case
  proof (cases "j = i")
    case True
    then have "i \<notin> fst ` set ps" using Cons.prems(1) p by auto
    then have "filter (\<lambda>(j, r). j \<noteq> i) ps = ps"
      by (induction ps) (auto simp: rev_image_eqI)
    then show ?thesis using True p by simp
  next
    case False
    then show ?thesis using Cons p by auto
  qed
qed

lemma handle_inv: "queueInv s \<Longrightarrow> admissible m s \<Longrightarrow> queueInv (handle m s)"
proof (cases m)
  case (StartMulti ids)
  assume "queueInv s" "admissible m s"
  then have "queueInv (s\<lparr>activeSessions := activeSessions s @ ids,
      taskQueue := taskQueue s @ ids\<rparr>)"
    using StartMulti by (auto simp: queueInv_def)
  then show ?thesis
    using StartMulti by (simp add: processTaskQueue_inv)
next
  case (StopOne taskId)
  assume "queueInv s" "admissible m s"
  then show ?thesis
    using StopOne by (auto simp: queueInv_def distinct_removeAll)
next
  case StopAll
  assume "admissible m s"
  then show ?thesis using StopAll by simp
next
  case (Settled taskId)
  assume inv: "queueInv s"
  show ?thesis
  proof (cases "taskId \<in> fst ` set (pending s)")
    case True
    have d: "distinct (map fst (pending s))"
      using inv by (simp add: queueInv_def)
    have l: "Suc (length (filter (\<lambda>(i, r). i \<noteq> taskId) (pending s))) = length (pending s)"
      using d True by (rule filter_one_out)
    have sub: "set (map fst (filter (\<lambda>(i, r). i \<noteq> taskId) (pending s)))
        \<subseteq> set (map fst (pending s))"
      by auto
    have "queueInv (s\<lparr>activeBrowserCount := activeBrowserCount s - 1,
        pending := filter (\<lambda>(i, r). i \<noteq> taskId) (pending s)\<rparr>)"
      using inv l sub by (auto simp: queueInv_def distinct_map_filter)
    then show ?thesis
      using Settled True by (simp add: processTaskQueue_inv)
  next
    case False
    then show ?thesis using Settled inv by simp
  qed
qed

lemma serve_inv: "queueInv s \<Longrightarrow> admissibleAll ms s \<Longrightarrow> queueInv (serve ms s)"
  unfolding serve_def
  by (induction ms arbitrary: s) (simp_all add: handle_inv)

lemma cap_without_stop_all:
  "admissibleAll ms newServer \<Longrightarrow>
   int (runningSessions (serve ms newServer)) \<le> MAX_CONCURRENT_BROWSERS"
proof -
  assume a: "admissibleAll ms newServer"
  have "queueInv newServer"
    by (simp add: queueInv_def newServer_def MAX_CONCURRENT_BROWSERS_def)
  then have "queueInv (serve ms newServer)"
    using a by (rule serve_inv)
  moreover have "runningSessions (serve ms newServer) \<le> length (pending (serve ms newServer))"
    by (simp add: runningSessions_def)
  ultimately show ?thesis
    by (simp add: queueInv_def)
qed

text \<open>
  C2 at a concrete input. One task is submitted and started; \<open>stop_all\<close> arrives while
  its \<open>startScraping\<close> is still pending and sets \<open>activeBrowserCount\<close> to \<open>0\<close>; two more
  tasks are submitted, of which the first is started; then the promise of the stopped
  task settles, its \<open>finally\<close> callback decrements the counter again and the queue starts
  the last task as well. Two sessions with \<open>isRunning = true\<close> are now pending at once,
  with \<open>MAX_CONCURRENT_BROWSERS = 1\<close>.
\<close>

theorem stop_all_two_running:
  "pending (serve [StartMulti [1], StopAll, StartMulti [2, 3], Settled 1] newServer)
     = [(2, True), (3, True)]
   \<and> runningSessions (serve [StartMulti [1], StopAll, StartMulti [2, 3], Settled 1] newServer) = 2
   \<and> activeBrowserCount (serve [StartMulti [1], StopAll, StartMulti [2, 3], Settled 1] newServer) = 1
   \<and> MAX_CONCURRENT_BROWSERS = 1"
  by (simp add: serve_def newServer_def processTaskQueue.simps MAX_CONCURRENT_BROWSERS_def
      stopPending_def runningSessions_def)

section \<open>Duplicates within one page\<close>

text \<open>
  Across pages the filter does its work: with \<open>removeDuplicates\<close> on, if no page's
  candidate list names an item twice, the products collected by the page loop have
  pairwise different item numbers.
\<close>

lemma getProp_setProp_other: "k \<noteq> k' \<Longrightarrow> getProp (setProp p k v) k' = getProp p k'"
  by (induction p) (auto simp: getProp_def)

lemma itemNumber_stamp [simp]: "itemNumber (setProp p ''Scraped_At'' v) = itemNumber p"
  by (simp add: itemNumber_def getProp_setProp_other)

lemma fold_insert_set: "fold (\<lambda>p s. insert (f p) s) ps S = S \<union> f ` set ps"
  by (induction ps arbitrary: S) auto

lemma collect_dedup:
  assumes "removeDuplicates (opts t)" "dedupInv t" "distinct (map itemNumber ps)"
  shows "dedupInv (collect env page ps t)"
proof -
  let ?new = "filter (\<lambda>p. itemNumber p \<notin> seenItems t) ps"
  have p: "products (collect env page ps t)
      = products t @ map (\<lambda>p. setProp p ''Scraped_At'' (JStr (now env))) ?new"
    and s: "seenItems (collect env page ps t) = seenItems t \<union> itemNumber ` set ps"
    using assms(1) by (simp_all add: collect_def filterDuplicates_def Let_def fold_insert_set)
  have m: "map itemNumber (map (\<lambda>p. setProp p ''Scraped_At'' (JStr (now env))) ?new)
      = map itemNumber ?new"
    by simp
  have d: "distinct (map itemNumber ?new)"
    using assms(3) by (simp add: distinct_map_filter)
  have "distinct (map itemNumber (products (collect env page ps t)))"
    using assms(2) d unfolding p dedupInv_def
    by (auto simp: m comp_def)
  moreover have "itemNumber ` set (products (collect env page ps t))
      \<subseteq> seenItems (collect env page ps t)"
    using assms(2) unfolding p s dedupInv_def by auto
  ultimately show ?thesis
    by (simp add: dedupInv_def)
qed

lemma dedupInv_cong:
  "products t' = products t \<Longrightarrow> seenItems t' = seenItems t \<Longrightarrow> dedupInv t' = dedupInv t"
  by (simp add: dedupInv_def)

lemma extractAndCollect_dedup:
  assumes "removeDuplicates (opts t)" "dedupInv t" "distinctCandidates env"
  shows "dedupInv (snd (extractAndCollect env page t))"
proof (cases "extracted env")
  case (Inl msg)
  then show ?thesis
    using assms(2) by (simp add: extractAndCollect_def dedupInv_def)
next
  case (Inr ps)
  have "dedupInv (collect env page ps (act (Extract page) t))"
    using assms Inr
    by (intro collect_dedup) (simp_all add: distinctCandidates_def dedupInv_def)
  then show ?thesis
    using Inr
    by (simp add: extractAndCollect_def Let_def split_beta
        dedupInv_cong [of "deliverAll _ _"] dedupInv_cong [of "snd (emptyCheck _ _ _)"])
qed

lemma pageIteration_dedup:
  assumes "removeDuplicates (opts t)" "dedupInv t" "distinctCandidates env"
  shows "dedupInv (snd (pageIteration env page t))"
proof -
  obtain b t1 where w: "waitIfPaused (pauseTicks env) t = (b, t1)"
    by (cases "waitIfPaused (pauseTicks env) t")
  have f1: "opts t1 = opts t" "products t1 = products t" "seenItems t1 = seenItems t"
    using waitIfPaused_frame [of "pauseTicks env" t] by (simp_all add: w)
  define t2 where "t2 = t1\<lparr>currentPage := page\<rparr>"
  have f2: "removeDuplicates (opts t2)" "dedupInv t2"
    using assms f1 by (simp_all add: t2_def dedupInv_def)
  obtain x t3 where n: "navigation env page t2 = (x, t3)"
    by (cases "navigation env page t2")
  have f3: "removeDuplicates (opts t3)" "dedupInv t3"
    using navigation_frame [of env page t2] f2 by (simp_all add: n dedupInv_def)
  have e2: "dedupInv (snd (extractAndCollect env page t2))"
    using f2 assms(3) by (rule extractAndCollect_dedup)
  have e3: "dedupInv (snd (extractAndCollect env page t3))"
    using f3 assms(3) by (rule extractAndCollect_dedup)
  have d1: "dedupInv t1"
    using assms(2) f1 by (simp add: dedupInv_def)
  have d3: "dedupInv (deliverAll (duringPage env) t3)"
    using f3(2) by (simp add: dedupInv_def)
  show ?thesis
    using e2 e3 d1 d3
    by (cases b; cases x; simp add: pageIteration_def w n t2_def [symmetric] Let_def)
qed

lemma pageLoop_dedup:
  "(\<And>p. distinctCandidates (pgs p)) \<Longrightarrow> removeDuplicates (opts t) \<Longrightarrow> dedupInv t \<Longrightarrow>
   dedupInv (snd (pageLoop pgs page t))"
proof (induction pgs page t rule: pageLoop.induct)
  case (1 env page t)
  obtain fl t1 where it: "pageIteration (env page) page t = (fl, t1)"
    by (cases "pageIteration (env page) page t")
  have d1: "dedupInv t1"
    using pageIteration_dedup [OF "1.prems"(2,3) "1.prems"(1) [of page], of page]
    by (simp add: it)
  have o1: "removeDuplicates (opts t1)"
    using pageIteration_frame(1) [of "env page" page t] "1.prems"(2) by (simp add: it)
  show ?case
  proof (cases "le_num page (totalPages t) \<and> isRunning t")
    case True
    show ?thesis
    proof (cases fl)
      case Next
      have "dedupInv (snd (pageLoop env (page + 1) t1))"
        using "1.IH" [OF True it [symmetric] Next "1.prems"(1) o1 d1] .
      then show ?thesis
        using True it Next by (simp add: pageLoop_step)
    qed (use True it d1 in \<open>simp_all add: pageLoop_step\<close>)
  next
    case False
    then show ?thesis
      using "1.prems"(3) by (simp add: pageLoop_exit)
  qed
qed

text \<open>
  C4 at a concrete input. With \<open>removeDuplicates\<close> on, a single result page whose
  candidate list holds the same item number twice leaves both records in the task's
  product list: the candidates are filtered against \<open>seenItems\<close> before any of them is
  added to it.
\<close>

theorem removeDuplicates_same_page:
  "removeDuplicates exampleOptions
   \<and> fst (startScraping (quietRun duplicatePages 2) (newTask exampleOptions))
   \<and> map itemNumber
        (products (snd (startScraping (quietRun duplicatePages 2) (newTask exampleOptions))))
       = [JStr ''125'', JStr ''125'']
   \<and> emitted (trace (snd (startScraping (quietRun duplicatePages 2) (newTask exampleOptions))))
       = [Status ''scraping'', Status ''loading_first_page'', Status ''scraping'',
          Progress 1 2 2 2, FilesSaved, Complete 2 False]"
  by (simp add: run_defs duplicatePages_def)

section \<open>What a run does outside the page loop\<close>

lemma outer_simps [simp]:
  "outer [] = []"
  "outer (xs @ ys) = outer xs @ outer ys"
  "outer (a # xs) = (if loopAction a then outer xs else a # outer xs)"
  by (simp_all add: outer_def)

lemma outer_deliver [simp]: "outer (trace (deliver c t)) = outer (trace t)"
  by (cases c) (simp_all add: pause_def resume_def stop_def cleanup_def Let_def)

lemma outer_deliverAll [simp]: "outer (trace (deliverAll cs t)) = outer (trace t)"
  unfolding deliverAll_def by (induction cs arbitrary: t) simp_all

lemma outer_waitIfPaused [simp]: "outer (trace (snd (waitIfPaused ticks t))) = outer (trace t)"
  by (induction ticks arbitrary: t) simp_all

lemma outer_tryNavigate [simp]: "outer (trace (snd (tryNavigate env page t))) = outer (trace t)"
  by (simp add: tryNavigate_def Let_def split: goto_result.splits option.splits)

lemma outer_retryNavigate [simp]: "outer (trace (snd (retryNavigate env page t))) = outer (trace t)"
  by (simp add: retryNavigate_def Let_def split: goto_result.splits)

lemma outer_navigation [simp]: "outer (trace (snd (navigation env page t))) = outer (trace t)"
proof -
  obtain x t1 where tn: "tryNavigate env page t = (x, t1)"
    by (cases "tryNavigate env page t")
  have "outer (trace t1) = outer (trace t)"
    using outer_tryNavigate [of env page t] by (simp add: tn)
  then show ?thesis
    by (cases x) (simp_all add: navigation_def tn)
qed

lemma outer_collect [simp]: "outer (trace (collect env page ps t)) = outer (trace t)"
  by (simp add: collect_def filterDuplicates_def Let_def)

lemma outer_emptyCheck [simp]: "outer (trace (snd (emptyCheck page ps t))) = outer (trace t)"
  by (simp add: emptyCheck_def Let_def)

lemma outer_extractAndCollect [simp]:
  "outer (trace (snd (extractAndCollect env page t))) = outer (trace t)"
  by (simp add: extractAndCollect_def Let_def split_beta split: sum.splits)

lemma outer_pageIteration [simp]:
  "outer (trace (snd (pageIteration env page t))) = outer (trace t)"
proof -
  obtain b t1 where w: "waitIfPaused (pauseTicks env) t = (b, t1)"
    by (cases "waitIfPaused (pauseTicks env) t")
  have o1: "outer (trace t1) = outer (trace t)"
    using outer_waitIfPaused [of "pauseTicks env" t] by (simp add: w)
  obtain x t3 where n: "navigation env page (t1\<lparr>currentPage := page\<rparr>) = (x, t3)"
    by (cases "navigation env page (t1\<lparr>currentPage := page\<rparr>)")
  have o3: "outer (trace t3) = outer (trace t)"
    using outer_navigation [of env page "t1\<lparr>currentPage := page\<rparr>"] by (simp add: n o1)
  show ?thesis
    by (cases b; cases x; simp add: pageIteration_def w n o1 o3 Let_def)
qed

lemma outer_pageLoop [simp]: "outer (trace (snd (pageLoop env page t))) = outer (trace t)"
proof (induction env page t rule: pageLoop.induct)
  case (1 env page t)
  obtain fl t1 where it: "pageIteration (env page) page t = (fl, t1)"
    by (cases "pageIteration (env page) page t")
  have fr: "outer (trace t1) = outer (trace t)"
    using outer_pageIteration [of "env page" page t] by (simp add: it)
  show ?case
  proof (cases "le_num page (totalPages t) \<and> isRunning t")
    case True
    show ?thesis
    proof (cases fl)
      case Next
      have "outer (trace (snd (pageLoop env (page + 1) t1))) = outer (trace t1)"
        using 1 True it Next by auto
      then show ?thesis
        using True it Next fr by (simp add: pageLoop_step)
    qed (use True it fr in \<open>simp_all add: pageLoop_step\<close>)
  next
    case False
    then show ?thesis by (simp add: pageLoop_exit)
  qed
qed

lemma outer_visitProduct [simp]:
  "outer (trace (snd (visitProduct env i n t))) = outer (trace t)"
  by (simp add: visitProduct_def Let_def split: detail_result.splits)

lemma outer_detailsLoop [simp]:
  "outer (trace (snd (detailsLoop env m i n t))) = outer (trace t)"
proof (induction n arbitrary: i t)
  case 0
  then show ?case by simp
next
  case (Suc n)
  obtain b t1 where w: "waitIfPaused (dTicks (env i)) t = (b, t1)"
    by (cases "waitIfPaused (dTicks (env i)) t")
  have o1: "outer (trace t1) = outer (trace t)"
    using outer_waitIfPaused [of "dTicks (env i)" t] by (simp add: w)
  obtain c t2 where v: "visitProduct (env i) i m t1 = (c, t2)"
    by (cases "visitProduct (env i) i m t1")
  have o2: "outer (trace t2) = outer (trace t)"
    using outer_visitProduct [of "env i" i m t1] by (simp add: v o1)
  show ?case
    by (cases b; cases c; simp add: w v o1 o2 Suc.IH)
qed

lemma outer_extractProductDetails [simp]:
  "outer (trace (snd (extractProductDetails env t))) = outer (trace t)"
  by (simp add: extractProductDetails_def)

lemma outer_loadFirstPage [simp]:
  "outer (trace (snd (loadFirstPage attempt n t))) = outer (trace t)"
  by (induction n arbitrary: t) (simp_all add: Let_def split: goto_result.splits)


lemma products_cleanup [simp]: "products (cleanup t) = products t"
  by (simp add: cleanup_def Let_def)

lemma outer_cleanup [simp]: "outer (trace (cleanup t)) = outer (trace t)"
  by (simp add: cleanup_def Let_def)

lemma products_onFatal [simp]: "products (onFatal env msg t) = products t"
  by (simp add: onFatal_def saveResults_def Let_def split: option.splits)

lemma outer_onFatal:
  "outer (trace (onFatal env msg t)) = outer (trace t)
     @ (if products t \<noteq> [] \<and> saveFailureInCatch env = None
        then [Save (formattedProducts (products t)), Emit FilesSaved,
              Emit (Complete (length (products t)) True)]
        else [])
     @ [Emit (Error msg (length (products t)))]"
  by (simp add: onFatal_def saveResults_def Let_def split: option.splits)

lemma outer_afterLoop:
  "outer (trace (snd (afterLoop env t))) = outer (trace t)
     @ (if fst (afterLoop env t) = Finished
        then [Save (formattedProducts (products (snd (afterLoop env t)))), Emit FilesSaved,
              Emit (Complete (length (products (snd (afterLoop env t)))) False)]
        else [])"
proof -
  obtain b t1 where d: "extractProductDetails (details env) t = (b, t1)"
    by (cases "extractProductDetails (details env) t")
  have o: "outer (trace t1) = outer (trace t)"
    using outer_extractProductDetails [of "details env" t] by (simp add: d)
  show ?thesis
    by (cases b) (simp_all add: afterLoop_def saveResults_def d o split: option.splits)
qed

lemma outer_init [simp]: "outer (trace (snd (init r t))) = outer (trace t) @ [Launch]"
  by (cases r) (simp_all add: init_def Let_def)

lemma outer_scrape:
  "outer (trace (snd (scrape env t))) = outer (trace t) @ Launch
     # (if fst (scrape env t) = Finished
        then [Save (formattedProducts (products (snd (scrape env t)))), Emit FilesSaved,
              Emit (Complete (length (products (snd (scrape env t)))) False)]
        else [])"
proof -
  obtain r1 t1 where i: "init (initResult env) t = (r1, t1)"
    by (cases "init (initResult env) t")
  have o1: "outer (trace t1) = outer (trace t) @ [Launch]"
    using outer_init [of "initResult env" t] by (simp add: i)
  obtain r2 t2 where l: "loadFirstPage (firstLoad env) 3
      (sendUpdate (Status ''loading_first_page'') t1) = (r2, t2)"
    by (cases "loadFirstPage (firstLoad env) 3 (sendUpdate (Status ''loading_first_page'') t1)")
  have o2: "outer (trace t2) = outer (trace t) @ [Launch]"
    using outer_loadFirstPage [of "firstLoad env" 3 "sendUpdate (Status ''loading_first_page'') t1"]
    by (simp add: l o1)
  show ?thesis
  proof (cases r1)
    case (Some msg)
    then show ?thesis by (simp add: scrape_def i o1)
  next
    case None
    note r1 = this
    show ?thesis
    proof (cases r2)
      case (Some msg)
      then show ?thesis by (simp add: scrape_def i r1 l o2)
    next
      case None
      note r2 = this
      show ?thesis
      proof (cases "pageInfo env")
        case (Inl msg)
        then show ?thesis by (simp add: scrape_def i r1 l r2 o2)
      next
        case (Inr pinfo)
        define t4 where "t4 = deliverAll (duringSetup env)
          (sendUpdate (Status ''scraping'') (t2\<lparr>totalPages := computeTotalPages (opts t2) pinfo\<rparr>))"
        have o4: "outer (trace t4) = outer (trace t) @ [Launch]"
          by (simp add: t4_def o2)
        obtain r5 t5 where p: "pageLoop (pages env) 1 t4 = (r5, t5)"
          by (cases "pageLoop (pages env) 1 t4")
        have o5: "outer (trace t5) = outer (trace t) @ [Launch]"
          using outer_pageLoop [of "pages env" 1 t4] by (simp add: p o4)
        have s: "scrape env t = (case r5 of Finished \<Rightarrow> afterLoop env t5
            | Failed msg \<Rightarrow> (Failed msg, t5) | Hung \<Rightarrow> (Hung, t5))"
          using p by (simp add: scrape_def i r1 l r2 Inr Let_def t4_def)
        show ?thesis
          by (cases r5) (simp_all add: s o5 outer_afterLoop)
      qed
    qed
  qed
qed

lemma outer_startScraping:
  "outer (trace (snd (startScraping env t))) = outer (trace t) @ Launch
     # (case fst (scrape env (sendUpdate (Status ''scraping'') (t\<lparr>isRunning := True\<rparr>))) of
          Finished \<Rightarrow>
            [Save (formattedProducts (products (snd (startScraping env t)))), Emit FilesSaved,
             Emit (Complete (length (products (snd (startScraping env t)))) False)]
        | Failed msg \<Rightarrow>
            (if products (snd (startScraping env t)) \<noteq> [] \<and> saveFailureInCatch env = None
             then [Save (formattedProducts (products (snd (startScraping env t)))),
                   Emit FilesSaved,
                   Emit (Complete (length (products (snd (startScraping env t)))) True)]
             else [])
            @ [Emit (Error msg (length (products (snd (startScraping env t)))))]
        | Hung \<Rightarrow> [])"
proof -
  define t0 where "t0 = sendUpdate (Status ''scraping'') (t\<lparr>isRunning := True\<rparr>)"
  obtain r t1 where s: "scrape env t0 = (r, t1)"
    by (cases "scrape env t0")
  have o: "outer (trace t1) = outer (trace t) @ Launch
     # (if r = Finished
        then [Save (formattedProducts (products t1)), Emit FilesSaved,
              Emit (Complete (length (products t1)) False)]
        else [])"
  proof -
    have "outer (trace t0) = outer (trace t)"
      by (simp add: t0_def)
    then show ?thesis
      using outer_scrape [of env t0] by (simp add: s)
  qed
  show ?thesis
    unfolding t0_def [symmetric]
    by (cases r) (simp_all add: startScraping_def t0_def [symmetric] s o outer_onFatal)
qed

section \<open>Terminal updates of a run\<close>

lemma terminalEvents_outer: "terminalEvents (outer as) = terminalEvents as"
proof (induction as)
  case Nil
  then show ?case by simp
next
  case (Cons a as)
  then show ?case
  proof (cases a)
    case (Emit e)
    with Cons show ?thesis by (cases e) (simp_all add: terminalEvents_def)
  qed (simp_all add: terminalEvents_def)
qed

lemma terminalEvents_append [simp]:
  "terminalEvents (xs @ ys) = terminalEvents xs @ terminalEvents ys"
  by (simp add: terminalEvents_def)

lemma fst_startScraping:
  "fst (startScraping env t)
     = (fst (scrape env (sendUpdate (Status ''scraping'') (t\<lparr>isRunning := True\<rparr>))) \<noteq> Hung)"
  by (simp add: startScraping_def split: prod.splits outcome.splits)

text \<open>
  C1, as stated, fails. Page 1 yields one product, then \<open>extractProducts\<close> throws on
  page 2. The \<open>catch\<close> block exports the product, sends \<open>complete\<close> (with the error
  message attached) and then sends \<open>error\<close>: one run, two terminal updates.
\<close>

theorem startScraping_counterexample:
  "emitted (trace (snd (startScraping (quietRun crashPages 120) (newTask exampleOptions))))
     = [Status ''scraping'', Status ''loading_first_page'', Status ''scraping'',
        Progress 1 1 1 1, FilesSaved, Complete 1 True, Error ''Target closed'' 1]"
  by (simp add: run_defs crashPages_def)

text \<open>
  C1, amended. Whatever the world and the client do, the \<open>complete\<close> and \<open>error\<close>
  updates of one run of \<open>startScraping\<close> are these. If the \<open>try\<close> block ends normally:
  exactly one \<open>complete\<close> and no \<open>error\<close>. If it ends with a fatal error: exactly one
  \<open>error\<close>, sent last, preceded by one \<open>complete\<close> that carries the error message exactly
  when at least one product was collected and the export in the \<open>catch\<close> block
  succeeded. If the run never settles (a pause that is never lifted): none. The counts
  in the updates are the number of collected products. (\<open>status: stopped\<close> is a
  \<open>status\<close> update; a stopped task's run still ends in one of the ways above.)
\<close>

theorem startScraping_terminal_events:
  "terminalEvents (trace (snd (startScraping env t))) = terminalEvents (trace t)
     @ (case fst (scrape env (sendUpdate (Status ''scraping'') (t\<lparr>isRunning := True\<rparr>))) of
          Finished \<Rightarrow> [Complete (length (products (snd (startScraping env t)))) False]
        | Failed msg \<Rightarrow>
            (if products (snd (startScraping env t)) \<noteq> [] \<and> saveFailureInCatch env = None
             then [Complete (length (products (snd (startScraping env t)))) True]
             else [])
            @ [Error msg (length (products (snd (startScraping env t))))]
        | Hung \<Rightarrow> [])
   \<and> fst (startScraping env t)
       = (fst (scrape env (sendUpdate (Status ''scraping'') (t\<lparr>isRunning := True\<rparr>))) \<noteq> Hung)"
proof -
  have "terminalEvents (trace (snd (startScraping env t)))
      = terminalEvents (outer (trace (snd (startScraping env t))))"
    by (simp add: terminalEvents_outer)
  also have "\<dots> = terminalEvents (trace t)
     @ (case fst (scrape env (sendUpdate (Status ''scraping'') (t\<lparr>isRunning := True\<rparr>))) of
          Finished \<Rightarrow> [Complete (length (products (snd (startScraping env t)))) False]
        | Failed msg \<Rightarrow>
            (if products (snd (startScraping env t)) \<noteq> [] \<and> saveFailureInCatch env = None
             then [Complete (length (products (snd (startScraping env t)))) True]
             else [])
            @ [Error msg (length (products (snd (startScraping env t))))]
        | Hung \<Rightarrow> [])"
    unfolding outer_startScraping
    by (simp add: terminalEvents_outer split: outcome.splits) (simp add: terminalEvents_def)
  finally show ?thesis
    by (simp add: fst_startScraping)
qed

theorem startScraping_terminal_events_witness:
  "terminalEvents (trace (snd (startScraping (quietRun singlePage 1) (newTask exampleOptions))))
     = [Complete 1 False]
   \<and> fst (startScraping (quietRun singlePage 1) (newTask exampleOptions))"
proof -
  have s: "fst (scrape (quietRun singlePage 1)
      (sendUpdate (Status ''scraping'') ((newTask exampleOptions)\<lparr>isRunning := True\<rparr>)))
      = Finished"
    by (simp add: run_defs singlePage_def sendUpdate_def act_def)
  have p: "length (products (snd (startScraping (quietRun singlePage 1)
      (newTask exampleOptions)))) = 1"
    by (simp add: run_defs singlePage_def)
  have e: "terminalEvents (trace (newTask exampleOptions)) = []"
    by (simp add: newTask_def terminalEvents_def)
  show ?thesis
    using startScraping_terminal_events [of "quietRun singlePage 1" "newTask exampleOptions"]
    by (simp add: s p e)
qed

section \<open>Browser launch and first page\<close>

lemma count_Launch_outer: "count_list (outer as) Launch = count_list as Launch"
proof (induction as)
  case Nil
  then show ?case by simp
next
  case (Cons a as)
  then show ?case by (cases "loopAction a") auto
qed

lemma launch_once:
  "count_list (trace (snd (startScraping env t))) Launch = count_list (trace t) Launch + 1"
proof -
  have "count_list (trace (snd (startScraping env t))) Launch
      = count_list (outer (trace (snd (startScraping env t)))) Launch"
    by (simp add: count_Launch_outer)
  also have "\<dots> = count_list (trace t) Launch + 1"
    unfolding outer_startScraping
    by (simp add: count_Launch_outer split: outcome.splits)
  finally show ?thesis .
qed

lemma loadFirstPage_ok:
  "(fst (loadFirstPage attempt 3 t) = None) = (\<exists>k<3. \<exists>url. attempt k = GotoOk url)"
proof -
  have k3: "(\<exists>k<3. \<exists>url. attempt k = GotoOk url)
      = ((\<exists>url. attempt 0 = GotoOk url) \<or> (\<exists>url. attempt 1 = GotoOk url)
         \<or> (\<exists>url. attempt 2 = GotoOk url))"
    by (auto simp: less_Suc_eq eval_nat_numeral)
  show ?thesis
    unfolding k3
    by (cases "attempt 0"; cases "attempt 1"; cases "attempt 2";
        simp add: numeral_3_eq_3 numeral_2_eq_2 Let_def)
qed

lemma loadFirstPage_exhausted:
  "attempt 0 = GotoFails m0 \<Longrightarrow> attempt 1 = GotoFails m1 \<Longrightarrow> attempt 2 = GotoFails m2 \<Longrightarrow>
   loadFirstPage attempt 3 t
     = (Some m2,
        act (Goto 1) (act (Sleep 5000) (sendUpdate (Status ''retrying'')
          (act (Goto 1) (act (Sleep 5000) (sendUpdate (Status ''retrying'')
            (act (Goto 1) t)))))))"
  by (simp add: numeral_3_eq_3 numeral_2_eq_2 Let_def)

lemma launch_fails_run:
  "initResult env = LaunchFails msg \<Longrightarrow> products t = [] \<Longrightarrow>
   fst (startScraping env t)
   \<and> emitted (trace (snd (startScraping env t)))
       = emitted (trace t) @ [Status ''scraping'', Error msg 0]"
  by (simp add: startScraping_def scrape_def init_def onFatal_def cleanup_def Let_def)

lemma first_page_fails_run:
  "initResult env = InitOk \<Longrightarrow> products t = [] \<Longrightarrow> firstLoad env 0 = GotoFails m0 \<Longrightarrow>
   firstLoad env 1 = GotoFails m1 \<Longrightarrow> firstLoad env 2 = GotoFails m2 \<Longrightarrow>
   fst (startScraping env t)
   \<and> emitted (trace (snd (startScraping env t)))
       = emitted (trace t) @ [Status ''scraping'', Status ''loading_first_page'',
           Status ''retrying'', Status ''retrying'', Error m2 0]"
  by (simp add: startScraping_def scrape_def init_def onFatal_def cleanup_def Let_def
      loadFirstPage_exhausted [of "firstLoad env" m0 m1 m2])

text \<open>
  C7, as stated, fails: when the browser cannot be launched, the run launches once, sends
  \<open>error\<close> and ends; no second launch is attempted.
\<close>

theorem launch_counterexample:
  "fst (startScraping launchFailure (newTask exampleOptions))
   \<and> trace (snd (startScraping launchFailure (newTask exampleOptions)))
       = [Emit (Status ''scraping''), Launch, Emit (Error ''Failed to launch'' 0)]"
  by (simp add: run_defs launchFailure_def singlePage_def)

text \<open>
  C7, amended. Every run launches the browser exactly once; when the launch fails the
  task fails at once with that error. What is retried is the load of the first page: it
  is attempted up to three times, with a \<open>retrying\<close> update and a fixed wait of five
  seconds after the first and the second failure; the load succeeds as soon as one of the
  three attempts does, and only when all three fail does the task fail, with the error
  of the third attempt.
\<close>

theorem launch_once_first_page_thrice:
  "count_list (trace (snd (startScraping env t))) Launch = count_list (trace t) Launch + 1
   \<and> (initResult env = LaunchFails msg \<and> products t = [] \<longrightarrow>
        fst (startScraping env t)
        \<and> emitted (trace (snd (startScraping env t)))
            = emitted (trace t) @ [Status ''scraping'', Error msg 0])
   \<and> (fst (loadFirstPage attempt 3 t) = None) = (\<exists>k<3. \<exists>url. attempt k = GotoOk url)
   \<and> (attempt 0 = GotoFails m0 \<and> attempt 1 = GotoFails m1 \<and> attempt 2 = GotoFails m2 \<longrightarrow>
        loadFirstPage attempt 3 t
          = (Some m2,
             act (Goto 1) (act (Sleep 5000) (sendUpdate (Status ''retrying'')
               (act (Goto 1) (act (Sleep 5000) (sendUpdate (Status ''retrying'')
                 (act (Goto 1) t))))))))
   \<and> (initResult env = InitOk \<and> products t = [] \<and> firstLoad env 0 = GotoFails m0
        \<and> firstLoad env 1 = GotoFails m1 \<and> firstLoad env 2 = GotoFails m2 \<longrightarrow>
        fst (startScraping env t)
        \<and> emitted (trace (snd (startScraping env t)))
            = emitted (trace t) @ [Status ''scraping'', Status ''loading_first_page'',
                Status ''retrying'', Status ''retrying'', Error m2 0])"
  using launch_once [of env t] launch_fails_run [of env msg t]
    loadFirstPage_ok [of attempt t] loadFirstPage_exhausted [of attempt m0 m1 m2 t]
    first_page_fails_run [of env t m0 m1 m2]
  by blast

theorem launch_once_first_page_thrice_witness:
  "count_list (trace (snd (startScraping slowFirstPage (newTask exampleOptions)))) Launch = 1
   \<and> fst (loadFirstPage (firstLoad slowFirstPage) 3 (newTask exampleOptions)) = None
   \<and> emitted (trace (snd (startScraping deadFirstPage (newTask exampleOptions))))
       = [Status ''scraping'', Status ''loading_first_page'', Status ''retrying'',
          Status ''retrying'', Error ''Navigation timeout'' 0]"
proof -
  have a: "count_list (trace (snd (startScraping slowFirstPage (newTask exampleOptions)))) Launch
      = 1"
    using launch_once_first_page_thrice [of slowFirstPage "newTask exampleOptions"]
    by (simp add: newTask_def)
  have "\<exists>k<3. \<exists>url. firstLoad slowFirstPage k = GotoOk url"
    by (rule exI [of _ 2]) (simp add: slowFirstPage_def)
  then have b: "fst (loadFirstPage (firstLoad slowFirstPage) 3 (newTask exampleOptions)) = None"
    using launch_once_first_page_thrice [of _ "newTask exampleOptions" _
        "firstLoad slowFirstPage"]
    by blast
  have c: "emitted (trace (snd (startScraping deadFirstPage (newTask exampleOptions))))
       = [Status ''scraping'', Status ''loading_first_page'', Status ''retrying'',
          Status ''retrying'', Error ''Navigation timeout'' 0]"
    using launch_once_first_page_thrice [of deadFirstPage "newTask exampleOptions" _ _
        "''Navigation timeout''" "''Navigation timeout''" "''Navigation timeout''"]
    by (simp add: deadFirstPage_def quietRun_def newTask_def)
  show ?thesis using a b c by simp
qed

section \<open>Paths through one iteration\<close>

lemma waitIfPaused_idle: "\<not> (isPaused t \<and> isRunning t) \<Longrightarrow> waitIfPaused ticks t = (True, t)"
  by (cases ticks) auto

lemma navigation_exit: "fst (navigation env page t) = navExit env"
  by (simp add: navigation_def tryNavigate_def retryNavigate_def navExit_def retryExit_def
      Let_def split: goto_result.splits option.splits)







lemma pageLoop_next:
  "le_num page (totalPages t) \<Longrightarrow> isRunning t \<Longrightarrow> fst (pageIteration (env page) page t) = Next \<Longrightarrow>
   pageLoop env page t = pageLoop env (page + 1) (snd (pageIteration (env page) page t))"
  by (cases "pageIteration (env page) page t") (simp add: pageLoop_step)



lemma work_simps [simp]:
  "work [] = []"
  "work (xs @ ys) = work xs @ work ys"
  "work (a # xs) = (if isWork a then a # work xs else work xs)"
  by (simp_all add: work_def)

lemma work_deliver [simp]: "work (trace (deliver c t)) = work (trace t)"
  by (cases c) (simp_all add: pause_def resume_def stop_def cleanup_def Let_def)

lemma work_deliverAll [simp]: "work (trace (deliverAll cs t)) = work (trace t)"
  unfolding deliverAll_def by (induction cs arbitrary: t) simp_all

lemma deliver_stays_stopped: "\<not> isRunning t \<Longrightarrow> \<not> isRunning (deliver c t)"
  by (cases c) (simp_all add: pause_def resume_def stop_def cleanup_def Let_def)

lemma deliverAll_stays_stopped: "\<not> isRunning t \<Longrightarrow> \<not> isRunning (deliverAll cs t)"
  unfolding deliverAll_def
  by (induction cs arbitrary: t) (simp_all add: deliver_stays_stopped)

lemma deliverAll_stop: "StopTask \<in> set cs \<Longrightarrow> \<not> isRunning (deliverAll cs t)"
proof (induction cs arbitrary: t)
  case Nil
  then show ?case by simp
next
  case (Cons c cs)
  show ?case
  proof (cases "c = StopTask")
    case True
    have "\<not> isRunning (deliver StopTask t)"
      by (simp add: stop_def cleanup_def Let_def)
    then show ?thesis
      using True deliverAll_stays_stopped [of "deliver StopTask t" cs]
      by (simp add: deliverAll_def)
  next
    case False
    then show ?thesis
      using Cons by (simp add: deliverAll_def)
  qed
qed

lemma waitIfPaused_stop:
  "isPaused t \<Longrightarrow> isRunning t \<Longrightarrow> StopTask \<in> set cs \<Longrightarrow>
   waitIfPaused (cs # ticks) t = (True, deliverAll cs (act (Sleep 1000) t))"
  using deliverAll_stop [of cs "act (Sleep 1000) t"]
  by (simp add: waitIfPaused_idle)

lemma waitIfPaused_returns:
  "fst (waitIfPaused ticks t) \<Longrightarrow>
   \<not> (isPaused (snd (waitIfPaused ticks t)) \<and> isRunning (snd (waitIfPaused ticks t)))"
  by (induction ticks arbitrary: t) (auto split: if_splits)

lemma waitIfPaused_seconds:
  "\<exists>k\<le>length ticks. work (trace (snd (waitIfPaused ticks t)))
      = work (trace t) @ replicate k (Sleep 1000)"
proof (induction ticks arbitrary: t)
  case Nil
  then show ?case by simp
next
  case (Cons cs ticks)
  show ?case
  proof (cases "isPaused t \<and> isRunning t")
    case True
    obtain k where k: "k \<le> length ticks"
      "work (trace (snd (waitIfPaused ticks (deliverAll cs (act (Sleep 1000) t)))))
        = work (trace (deliverAll cs (act (Sleep 1000) t))) @ replicate k (Sleep 1000)"
      using Cons [of "deliverAll cs (act (Sleep 1000) t)"] by blast
    have "work (trace (snd (waitIfPaused (cs # ticks) t)))
        = work (trace t) @ replicate (Suc k) (Sleep 1000)"
      using True k(2) by (simp add: replicate_append_same)
    then show ?thesis
      using k(1) by (intro exI [of _ "Suc k"]) simp
  next
    case False
    then show ?thesis by (intro exI [of _ 0]) auto
  qed
qed





lemma navigation_stays_stopped:
  "\<not> isRunning t \<Longrightarrow> \<not> isRunning (snd (navigation env page t))"
  by (simp add: navigation_def tryNavigate_def retryNavigate_def Let_def
      deliverAll_stays_stopped split: goto_result.splits option.splits)

lemma pageIteration_skip_stopped:
  assumes "1 < page" "\<not> isRunning t" "navExit env = NavSkip"
  shows "fst (pageIteration env page t) = Next"
    and "products (snd (pageIteration env page t)) = products t"
    and "\<not> isRunning (snd (pageIteration env page t))"
proof -
  obtain x t3 where n: "navigation env page (t\<lparr>currentPage := page\<rparr>) = (x, t3)"
    by (cases "navigation env page (t\<lparr>currentPage := page\<rparr>)")
  have x: "x = NavSkip"
    using navigation_exit [of env page "t\<lparr>currentPage := page\<rparr>"] assms(3) by (simp add: n)
  have fr: "products t3 = products t" "\<not> isRunning t3"
    using navigation_frame [of env page "t\<lparr>currentPage := page\<rparr>"]
      navigation_stays_stopped [of "t\<lparr>currentPage := page\<rparr>" env page] assms(2)
    by (simp_all add: n)
  show "fst (pageIteration env page t) = Next"
    and "products (snd (pageIteration env page t)) = products t"
    and "\<not> isRunning (snd (pageIteration env page t))"
    using assms(1,2) fr
    by (simp_all add: pageIteration_def waitIfPaused_idle n x deliverAll_stays_stopped)
qed

lemma pageIteration_after_wait:
  assumes "waitIfPaused (pauseTicks env) t = (True, t1)"
  shows "pageIteration env page t = pageIteration env page t1"
proof -
  have "\<not> (isPaused t1 \<and> isRunning t1)"
    using waitIfPaused_returns [of "pauseTicks env" t] assms by simp
  then have "waitIfPaused (pauseTicks env) t1 = (True, t1)"
    by (rule waitIfPaused_idle)
  then show ?thesis
    using assms by (simp add: pageIteration_def)
qed

lemma stop_during_pause:
  assumes "isPaused t" "isRunning t" "pauseTicks (pgs page) = cs # ticks" "StopTask \<in> set cs"
    "1 < page" "navExit (pgs page) = NavSkip" "le_num page (totalPages t)"
  shows "fst (pageLoop pgs page t) = Finished"
    and "products (snd (pageLoop pgs page t)) = products t"
proof -
  define t1 where "t1 = deliverAll cs (act (Sleep 1000) t)"
  have w: "waitIfPaused (pauseTicks (pgs page)) t = (True, t1)"
    using waitIfPaused_stop [OF assms(1,2,4)] by (simp add: assms(3) t1_def)
  have s1: "\<not> isRunning t1" "products t1 = products t"
    using deliverAll_stop [OF assms(4)] by (simp_all add: t1_def)
  have it: "pageIteration (pgs page) page t = pageIteration (pgs page) page t1"
    using w by (rule pageIteration_after_wait)
  define t2 where "t2 = snd (pageIteration (pgs page) page t)"
  have f2: "fst (pageIteration (pgs page) page t) = Next" "products t2 = products t"
    "\<not> isRunning t2"
    using pageIteration_skip_stopped [OF assms(5) s1(1) assms(6)] s1(2)
    by (simp_all add: it t2_def)
  have "pageLoop pgs page t = pageLoop pgs (page + 1) t2"
    unfolding t2_def using assms(7,2) f2(1) by (rule pageLoop_next)
  also have "\<dots> = (Finished, t2)"
    using f2(3) by (simp add: pageLoop_exit)
  finally show "fst (pageLoop pgs page t) = Finished"
    and "products (snd (pageLoop pgs page t)) = products t"
    using f2(2) by simp_all
qed

section \<open>Consecutive empty pages\<close>





section \<open>Bot detection in the page loop\<close>

lemma navigation_detected_prefix:
  "firstGoto env = GotoOk url \<Longrightarrow> pageTitle env = Some title \<Longrightarrow> detected url title \<Longrightarrow>
   take (length (work (trace t)) + 4) (work (trace (snd (navigation env page t))))
     = work (trace t) @ [Goto page, Sleep 3000, Sleep 120000, Goto page]"
  by (simp add: navigation_def tryNavigate_def retryNavigate_def Let_def
      split: goto_result.splits)











lemma work_collect [simp]: "work (trace (collect env page ps t)) = work (trace t)"
  by (simp add: collect_def filterDuplicates_def Let_def)











section \<open>Where the stop flag is read\<close>

text \<open>
  C8, as stated, fails. Page 1 yields one product; page 2 answers with the bot challenge
  and the client stops the task during the two-minute wait. The stop is delivered
  (\<open>status: stopped\<close>, browser closed), but the task finishes the wait of 120000 ms,
  navigates again, waits ten more seconds and navigates a third time before the loop
  condition reads the flag.
\<close>

theorem stop_in_backoff_counterexample:
  "duringBackoff (stoppedInBackoff 2) = [StopTask]
   \<and> take 17 (trace (snd (startScraping (quietRun stoppedInBackoff 120)
                             (newTask exampleOptions))))
       = [Emit (Status ''scraping''), Launch, Emit (Status ''loading_first_page''), Goto 1,
          Sleep 3000, Emit (Status ''scraping''), Extract 1, Emit (Progress 1 1 1 1), Goto 2,
          Sleep 3000, Emit (Status ''paused''), Sleep 120000, Emit (Status ''stopped''),
          CloseBrowser, Goto 2, Sleep 10000, Goto 2]
   \<and> emitted (trace (snd (startScraping (quietRun stoppedInBackoff 120)
                              (newTask exampleOptions))))
       = [Status ''scraping'', Status ''loading_first_page'', Status ''scraping'',
          Progress 1 1 1 1, Status ''paused'', Status ''stopped'', FilesSaved,
          Complete 1 False]"
  by (simp add: run_defs stoppedInBackoff_def challengePage_def challengeUrl_def)

text \<open>
  C8, amended. The flag is read in the condition of the page loop, before every
  iteration: a stopped task leaves the loop there, with its products as they are. It is
  read in every round of the pause wait: a stop that arrives during a one-second round
  ends the wait at the end of that round, the wait consists of one-second sleeps only,
  and when the navigation of that page then fails (the browser is closed) the loop ends
  with the products unchanged. It is not read during the two-minute wait after a bot
  detection: whatever arrives during that wait, the task sleeps the whole 120000 ms and
  navigates to the page again.
\<close>

theorem stop_flag_sampling:
  "(\<not> isRunning t \<longrightarrow> pageLoop pgs page t = (Finished, t))
   \<and> (isPaused t \<and> isRunning t \<and> StopTask \<in> set cs \<longrightarrow>
        waitIfPaused (cs # ticks) t = (True, deliverAll cs (act (Sleep 1000) t))
        \<and> \<not> isRunning (deliverAll cs (act (Sleep 1000) t))
        \<and> products (deliverAll cs (act (Sleep 1000) t)) = products t)
   \<and> (\<exists>k\<le>length ticks.
        work (trace (snd (waitIfPaused ticks t))) = work (trace t) @ replicate k (Sleep 1000))
   \<and> (isPaused t \<and> isRunning t \<and> pauseTicks (pgs page) = cs # ticks \<and> StopTask \<in> set cs
        \<and> 1 < page \<and> navExit (pgs page) = NavSkip \<and> le_num page (totalPages t) \<longrightarrow>
        fst (pageLoop pgs page t) = Finished
        \<and> products (snd (pageLoop pgs page t)) = products t)
   \<and> (firstGoto env = GotoOk url \<and> pageTitle env = Some title \<and> detected url title \<longrightarrow>
        take (length (work (trace t)) + 4) (work (trace (snd (navigation env page t))))
          = work (trace t) @ [Goto page, Sleep 3000, Sleep 120000, Goto page])"
proof -
  have a: "pageLoop pgs page t = (Finished, t)" if "\<not> isRunning t"
    using that by (simp add: pageLoop_exit)
  have b: "waitIfPaused (cs # ticks) t = (True, deliverAll cs (act (Sleep 1000) t))
        \<and> \<not> isRunning (deliverAll cs (act (Sleep 1000) t))
        \<and> products (deliverAll cs (act (Sleep 1000) t)) = products t"
    if "isPaused t \<and> isRunning t \<and> StopTask \<in> set cs"
    using that waitIfPaused_stop [of t cs ticks] deliverAll_stop [of cs "act (Sleep 1000) t"]
    by simp
  have d: "fst (pageLoop pgs page t) = Finished
        \<and> products (snd (pageLoop pgs page t)) = products t"
    if "isPaused t \<and> isRunning t \<and> pauseTicks (pgs page) = cs # ticks \<and> StopTask \<in> set cs
        \<and> 1 < page \<and> navExit (pgs page) = NavSkip \<and> le_num page (totalPages t)"
    using that stop_during_pause [of t pgs page cs ticks] by simp
  have e: "take (length (work (trace t)) + 4) (work (trace (snd (navigation env page t))))
          = work (trace t) @ [Goto page, Sleep 3000, Sleep 120000, Goto page]"
    if "firstGoto env = GotoOk url \<and> pageTitle env = Some title \<and> detected url title"
    using that navigation_detected_prefix [of env url title t page] by simp
  show ?thesis
    using a b waitIfPaused_seconds [of ticks t] d e by blast
qed

theorem stop_flag_sampling_witness:
  "pageLoop emptyTail 4 ((newTask exampleOptions)\<lparr>totalPages := Some 10\<rparr>)
     = (Finished, (newTask exampleOptions)\<lparr>totalPages := Some 10\<rparr>)
   \<and> fst (waitIfPaused [[StopTask], []]
            ((newTask exampleOptions)\<lparr>isRunning := True, isPaused := True\<rparr>))
   \<and> work (trace (snd (waitIfPaused [[StopTask], []]
            ((newTask exampleOptions)\<lparr>isRunning := True, isPaused := True\<rparr>))))
       = [Sleep 1000]
   \<and> take 4 (work (trace (snd (navigation (stoppedInBackoff 2) 2
            ((newTask exampleOptions)\<lparr>isRunning := True, totalPages := Some 2\<rparr>)))))
       = [Goto 2, Sleep 3000, Sleep 120000, Goto 2]"
proof -
  let ?s = "(newTask exampleOptions)\<lparr>totalPages := Some 10\<rparr>"
  let ?p = "(newTask exampleOptions)\<lparr>isRunning := True, isPaused := True\<rparr>"
  let ?r = "(newTask exampleOptions)\<lparr>isRunning := True, totalPages := Some 2\<rparr>"
  have a: "pageLoop emptyTail 4 ?s = (Finished, ?s)"
    using stop_flag_sampling [of ?s emptyTail 4] by (simp add: newTask_def)
  have b: "waitIfPaused [[StopTask], []] ?p
      = (True, deliverAll [StopTask] (act (Sleep 1000) ?p))"
    using stop_flag_sampling [of ?p _ _ "[StopTask]" "[[]]"] by (simp add: newTask_def)
  have c: "work (trace (deliverAll [StopTask] (act (Sleep 1000) ?p))) = [Sleep 1000]"
    by (simp add: newTask_def)
  have h: "firstGoto (stoppedInBackoff 2) = GotoOk challengeUrl
      \<and> pageTitle (stoppedInBackoff 2) = Some ''Security Measure''
      \<and> detected challengeUrl ''Security Measure''"
    by (simp add: stoppedInBackoff_def challengePage_def detected_def challengeUrl_def)
  have e: "take 4 (work (trace (snd (navigation (stoppedInBackoff 2) 2 ?r))))
      = [Goto 2, Sleep 3000, Sleep 120000, Goto 2]"
    using stop_flag_sampling [of ?r _ 2 _ _ "stoppedInBackoff 2" challengeUrl
        "''Security Measure''"] h
    by (simp add: newTask_def)
  show ?thesis
    using a b c e by simp
qed

end
